theory Spec2Isabelle
  imports Main "HOL-Library.Word"
begin

unbundle bit_operations_syntax

section \<open>Go values shared by the package\<close>

text \<open>
  A Go \<^verbatim>\<open>[]byte\<close> is a list of 8-bit words; a Go \<^verbatim>\<open>string\<close> is an Isabelle
  \<open>string\<close>, whose characters are bytes. Revisions are \<^verbatim>\<open>uint64\<close>.
\<close>

type_synonym byte = "8 word"
type_synonym bytes = "byte list"
type_synonym uint64 = "64 word"

definition string_bytes :: "string \<Rightarrow> bytes" where
  "string_bytes s = map (\<lambda>c. word_of_nat (of_char c)) s"

subsection \<open>Errors\<close>

text \<open>
  \<^verbatim>\<open>jetstream.APIError\<close>, the error body of a broker API response. Its \<^verbatim>\<open>ErrorCode\<close>
  is a \<^verbatim>\<open>uint16\<close>.
\<close>

record APIError =
  Code :: int
  ErrorCode :: "16 word"
  Description :: string

text \<open>
  The Go \<^verbatim>\<open>error\<close> values the package meets, by their dynamic type:
  \<^item> \<open>ErrKeyNotFound\<close>: the sentinel \<^verbatim>\<open>jetstream.ErrKeyNotFound\<close>, a \<^verbatim>\<open>*jsError\<close> compared by
    identity (\<^verbatim>\<open>err == jetstream.ErrKeyNotFound\<close>), so it has a constructor of its own;
  \<^item> \<open>ErrOptimisticConcurrencyCheckFailed\<close>: the package's own sentinel, made by
    \<^verbatim>\<open>errors.New\<close>;
  \<^item> \<open>jsError a m\<close>: any other \<^verbatim>\<open>*jetstream.jsError\<close>, with an optional API error;
  \<^item> \<open>APIErr a\<close>: a \<^verbatim>\<open>*jetstream.APIError\<close> used as an error itself;
  \<^item> \<open>wrapError m e\<close>: \<^verbatim>\<open>fmt.Errorf(m + "%w", e)\<close>, which unwraps to \<open>e\<close>;
  \<^item> \<open>fmtError m e\<close>: \<^verbatim>\<open>fmt.Errorf(m + "%v", e)\<close>, whose text holds the text of \<open>e\<close> but
    which wraps nothing;
  \<^item> \<open>countError m n\<close>: \<^verbatim>\<open>fmt.Errorf\<close> of two integers (the handler contract error);
  \<^item> \<open>errorString m\<close>: any other plain error (\<^verbatim>\<open>errors.New\<close>, decoding errors);
  \<^item> \<open>joinError es\<close>: \<^verbatim>\<open>errors.Join\<close> of the non-nil errors \<open>es\<close>.
\<close>

datatype error =
    ErrKeyNotFound
  | ErrOptimisticConcurrencyCheckFailed
  | jsError "APIError option" string
  | APIErr APIError
  | wrapError string error
  | fmtError string error
  | countError nat nat
  | errorString string
  | joinError "error list"

text \<open>\<^verbatim>\<open>jetstream.JSErrCodeStreamWrongLastSequence\<close>.\<close>

definition JSErrCodeStreamWrongLastSequence :: "16 word" where
  "JSErrCodeStreamWrongLastSequence = 10071"

text \<open>
  \<^verbatim>\<open>errors.As(err, &apiErr)\<close> for a target of the interface type
  \<^verbatim>\<open>jetstream.JetStreamError\<close>: the first error of the chain, depth first, whose type
  implements the interface. The jetstream error types implement it; \<^verbatim>\<open>fmt.Errorf\<close> with
  \<^verbatim>\<open>%w\<close> has \<^verbatim>\<open>Unwrap() error\<close>, a joined error has \<^verbatim>\<open>Unwrap() []error\<close>, the others end the
  search.
\<close>

fun errors_As :: "error \<Rightarrow> error option"
  and errors_As_list :: "error list \<Rightarrow> error option" where
  "errors_As ErrKeyNotFound = Some ErrKeyNotFound"
| "errors_As ErrOptimisticConcurrencyCheckFailed = None"
| "errors_As (jsError a m) = Some (jsError a m)"
| "errors_As (APIErr a) = Some (APIErr a)"
| "errors_As (wrapError m e) = errors_As e"
| "errors_As (fmtError m e) = None"
| "errors_As (countError m n) = None"
| "errors_As (errorString m) = None"
| "errors_As (joinError es) = errors_As_list es"
| "errors_As_list [] = None"
| "errors_As_list (e # es) =
     (case errors_As e of Some x \<Rightarrow> Some x | None \<Rightarrow> errors_As_list es)"

text \<open>The method \<^verbatim>\<open>APIError()\<close> of a \<^verbatim>\<open>JetStreamError\<close>; \<open>None\<close> is the nil pointer.\<close>

fun JetStreamError_APIError :: "error \<Rightarrow> APIError option" where
  "JetStreamError_APIError (jsError a m) = a"
| "JetStreamError_APIError (APIErr a) = Some a"
| "JetStreamError_APIError e = None"

text \<open>
  \<^verbatim>\<open>errors.Join(errs...)\<close>: nil values are discarded, and the result is nil when every value
  is nil.
\<close>

definition errors_Join :: "error option list \<Rightarrow> error option" where
  "errors_Join errs =
     (let es = List.map_filter id errs in if es = [] then None else Some (joinError es))"

subsection \<open>What the standard library computes for the type argument\<close>

text \<open>
  The package is generic in \<^verbatim>\<open>T\<close>. What \<^verbatim>\<open>encoding/json\<close> does for \<^verbatim>\<open>T\<close>, the zero value of
  \<^verbatim>\<open>T\<close> and the digest of \<^verbatim>\<open>crypto/sha256\<close> are parameters. \<^verbatim>\<open>json.Unmarshal(data, &v)\<close> takes
  the value \<open>v\<close> holds and gives what it holds afterwards, with the error (a failed decoding
  may leave \<open>v\<close> partly filled).
\<close>

record 'a stdlib =
  sha256_Sum :: "bytes \<Rightarrow> bytes"
  json_Marshal :: "'a \<Rightarrow> error + bytes"
  json_Unmarshal :: "bytes \<Rightarrow> 'a \<Rightarrow> 'a \<times> error option"
  zeroT :: 'a

text \<open>\<^verbatim>\<open>hex.EncodeToString\<close>: two digits of \<^verbatim>\<open>hextable\<close> for each byte, high nibble first.\<close>

definition hextable :: string where
  "hextable = ''0123456789abcdef''"

definition hex_EncodeToString :: "bytes \<Rightarrow> string" where
  "hex_EncodeToString src =
     concat (map (\<lambda>v. [hextable ! unat (drop_bit 4 v), hextable ! unat (v AND 0x0f)]) src)"

section \<open>The key-value store (kv.go)\<close>

text \<open>
  The broker's side of \<^verbatim>\<open>jetstream.KeyValue\<close>: each method acts on the broker's state \<open>'s\<close>
  and takes the caller's context \<open>'c\<close>. A method that returns a value and an error of which
  the caller reads one is a sum; \<open>Put\<close> and \<open>Update\<close> return both, as the caller passes both
  on. A watcher is its channel of updates and its \<open>Stop\<close>: receiving from the channel gives
  an entry, or nil (the end-of-snapshot marker, or a closed channel), or blocks for ever
  (\<open>None\<close>).
\<close>

record KeyValueEntry =
  entryValue :: bytes
  entryRevision :: uint64

record 's KeyWatcher =
  Updates_recv :: "'s \<Rightarrow> (KeyValueEntry option \<times> 's) option"
  watcherStop :: "'s \<Rightarrow> error option \<times> 's"

datatype WatchOpt = IgnoreDeletes

record ('c, 's) KeyValue =
  kvGet :: "'c \<Rightarrow> string \<Rightarrow> 's \<Rightarrow> (error + KeyValueEntry) \<times> 's"
  kvGetRevision :: "'c \<Rightarrow> string \<Rightarrow> uint64 \<Rightarrow> 's \<Rightarrow> (error + KeyValueEntry) \<times> 's"
  kvHistory :: "'c \<Rightarrow> string \<Rightarrow> 's \<Rightarrow> (error + KeyValueEntry list) \<times> 's"
  kvPut :: "'c \<Rightarrow> string \<Rightarrow> bytes \<Rightarrow> 's \<Rightarrow> (uint64 \<times> error option) \<times> 's"
  kvUpdate :: "'c \<Rightarrow> string \<Rightarrow> bytes \<Rightarrow> uint64 \<Rightarrow> 's \<Rightarrow> (uint64 \<times> error option) \<times> 's"
  kvDelete :: "'c \<Rightarrow> string \<Rightarrow> 's \<Rightarrow> error option \<times> 's"
  kvWatchAll :: "'c \<Rightarrow> WatchOpt list \<Rightarrow> 's \<Rightarrow> (error + 's KeyWatcher) \<times> 's"

record ('c, 's) KV =
  kv :: "('c, 's) KeyValue"
  subject :: string

definition NewKV :: "('c, 's) KeyValue \<Rightarrow> string \<Rightarrow> ('c, 's) KV" where
  "NewKV k subj = \<lparr>kv = k, subject = subj\<rparr>"

definition keyToSubject :: "'a stdlib \<Rightarrow> ('c, 's) KV \<Rightarrow> string \<Rightarrow> string" where
  "keyToSubject T db key =
     subject db @ ''.'' @ hex_EncodeToString (sha256_Sum T (string_bytes key))"

definition Get ::
  "'a stdlib \<Rightarrow> ('c, 's) KV \<Rightarrow> 'c \<Rightarrow> string \<Rightarrow> 's \<Rightarrow> ('a \<times> uint64 \<times> bool \<times> error option) \<times> 's" where
  "Get T db ctx key s =
     (case kvGet (kv db) ctx (keyToSubject T db key) s of
        (Inl err, s') \<Rightarrow>
          if err = ErrKeyNotFound then ((zeroT T, 0, False, None), s')
          else ((zeroT T, 0, False, Some err), s')
      | (Inr entry, s') \<Rightarrow>
          (case json_Unmarshal T (entryValue entry) (zeroT T) of
             (v, err) \<Rightarrow> ((v, entryRevision entry, err = None, err), s')))"

definition GetRevision ::
  "'a stdlib \<Rightarrow> ('c, 's) KV \<Rightarrow> 'c \<Rightarrow> string \<Rightarrow> uint64 \<Rightarrow> 's \<Rightarrow> ('a \<times> bool \<times> error option) \<times> 's" where
  "GetRevision T db ctx key revision s =
     (case kvGetRevision (kv db) ctx (keyToSubject T db key) revision s of
        (Inl err, s') \<Rightarrow>
          if err = ErrKeyNotFound then ((zeroT T, False, None), s')
          else ((zeroT T, False, Some err), s')
      | (Inr entry, s') \<Rightarrow>
          (case json_Unmarshal T (entryValue entry) (zeroT T) of
             (v, err) \<Rightarrow> ((v, err = None, err), s')))"

text \<open>
  The loop of \<open>History\<close>: \<open>done\<close> are the slots already decoded, \<open>entries\<close> the entries
  still to decode. At a failure the slice is returned as it stands: the decoded slots, the
  slot the failed decoding wrote to, and zero values for the rest.
\<close>

fun History_loop ::
  "'a stdlib \<Rightarrow> 'a list \<Rightarrow> KeyValueEntry list \<Rightarrow> 'a list \<times> bool \<times> error option" where
  "History_loop T done [] = (done, True, None)"
| "History_loop T done (entry # entries) =
     (case json_Unmarshal T (entryValue entry) (zeroT T) of
        (v, Some err) \<Rightarrow> (done @ v # replicate (length entries) (zeroT T), False, Some err)
      | (v, None) \<Rightarrow> History_loop T (done @ [v]) entries)"

definition History ::
  "'a stdlib \<Rightarrow> ('c, 's) KV \<Rightarrow> 'c \<Rightarrow> string \<Rightarrow> 's \<Rightarrow> ('a list \<times> bool \<times> error option) \<times> 's" where
  "History T db ctx key s =
     (case kvHistory (kv db) ctx (keyToSubject T db key) s of
        (Inl err, s') \<Rightarrow>
          if err = ErrKeyNotFound then (([], False, None), s')
          else (([], False, Some err), s')
      | (Inr entries, s') \<Rightarrow> (History_loop T [] entries, s'))"

definition Put ::
  "'a stdlib \<Rightarrow> ('c, 's) KV \<Rightarrow> 'c \<Rightarrow> string \<Rightarrow> 'a \<Rightarrow> 's \<Rightarrow> (uint64 \<times> error option) \<times> 's" where
  "Put T db ctx key val s =
     (case json_Marshal T val of
        Inl err \<Rightarrow> ((0, Some err), s)
      | Inr entry \<Rightarrow> kvPut (kv db) ctx (keyToSubject T db key) entry s)"

definition Delete ::
  "'a stdlib \<Rightarrow> ('c, 's) KV \<Rightarrow> 'c \<Rightarrow> string \<Rightarrow> 's \<Rightarrow> error option \<times> 's" where
  "Delete T db ctx key s = kvDelete (kv db) ctx (keyToSubject T db key) s"

definition Update ::
  "'a stdlib \<Rightarrow> ('c, 's) KV \<Rightarrow> 'c \<Rightarrow> string \<Rightarrow> 'a \<Rightarrow> uint64 \<Rightarrow> 's \<Rightarrow> (uint64 \<times> error option) \<times> 's" where
  "Update T db ctx key val last_rev s =
     (case json_Marshal T val of
        Inl err \<Rightarrow> ((0, Some err), s)
      | Inr entry \<Rightarrow>
          (case kvUpdate (kv db) ctx (keyToSubject T db key) entry last_rev s of
             ((revn, err), s') \<Rightarrow>
               (case (case err of None \<Rightarrow> None | Some e \<Rightarrow> errors_As e) of
                  Some apiErr \<Rightarrow>
                    (case JetStreamError_APIError apiErr of
                       Some a \<Rightarrow>
                         if ErrorCode a = JSErrCodeStreamWrongLastSequence
                         then ((0, Some ErrOptimisticConcurrencyCheckFailed), s')
                         else ((revn, err), s')
                     | None \<Rightarrow> ((revn, err), s'))
                | None \<Rightarrow> ((revn, err), s'))))"

subsection \<open>Iterators\<close>

text \<open>
  An \<open>Iterator\<close> holds two closures. The closures \<open>List\<close> builds capture the watcher, whose
  channel lives in the broker's state, so a closure is a function of that state. A call of
  \<open>next_fn\<close> that never returns (a receive that blocks for ever) is \<open>None\<close>. A pointer to an
  iterator is an \<open>option\<close>, \<open>None\<close> being nil.
\<close>

record ('a, 's) Iterator =
  next_fn :: "'s \<Rightarrow> (('a \<times> bool \<times> error option) \<times> 's) option"
  Value :: 'a
  Error :: "error option"
  stop_fn :: "'s \<Rightarrow> error option \<times> 's"

definition Next :: "('a, 's) Iterator \<Rightarrow> 's \<Rightarrow> (bool \<times> ('a, 's) Iterator \<times> 's) option" where
  "Next it s =
     (case next_fn it s of
        None \<Rightarrow> None
      | Some ((v, ok, err), s') \<Rightarrow> Some (ok, it\<lparr>Value := v, Error := err\<rparr>, s'))"

definition Stop :: "('a, 's) Iterator \<Rightarrow> 's \<Rightarrow> error option \<times> 's" where
  "Stop it s = stop_fn it s"

definition NewIterator ::
  "'a stdlib \<Rightarrow> ('s \<Rightarrow> (('a \<times> bool \<times> error option) \<times> 's) option) \<Rightarrow>
   ('s \<Rightarrow> error option \<times> 's) \<Rightarrow> ('a, 's) Iterator option" where
  "NewIterator T nxt stp = Some \<lparr>next_fn = nxt, Value = zeroT T, Error = None, stop_fn = stp\<rparr>"

definition List ::
  "'a stdlib \<Rightarrow> ('c, 's) KV \<Rightarrow> 'c \<Rightarrow> 's \<Rightarrow> ('a, 's) Iterator option \<times> 's" where
  "List T db ctx s =
     (case kvWatchAll (kv db) ctx [IgnoreDeletes] s of
        (Inl err, s') \<Rightarrow>
          (NewIterator T (\<lambda>t. Some ((zeroT T, False, Some err), t)) (\<lambda>t. (None, t)), s')
      | (Inr w, s') \<Rightarrow>
          (NewIterator T
             (\<lambda>t. case Updates_recv w t of
                     None \<Rightarrow> None
                   | Some (None, t') \<Rightarrow> Some ((zeroT T, False, None), t')
                   | Some (Some update, t') \<Rightarrow>
                       (case json_Unmarshal T (entryValue update) (zeroT T) of
                          (v, Some err) \<Rightarrow> Some ((v, False, Some err), t')
                        | (v, None) \<Rightarrow> Some ((v, True, None), t')))
             (watcherStop w), s'))"

text \<open>
  A caller that calls \<open>Next\<close> \<open>n\<close> times and notes, after each call, what it returned and
  the fields \<open>Value\<close> and \<open>Error\<close>.
\<close>

fun Next_times ::
  "nat \<Rightarrow> ('a, 's) Iterator \<Rightarrow> 's \<Rightarrow>
   ((bool \<times> 'a \<times> error option) list \<times> ('a, 's) Iterator \<times> 's) option" where
  "Next_times 0 it s = Some ([], it, s)"
| "Next_times (Suc n) it s =
     (case Next it s of
        None \<Rightarrow> None
      | Some (ok, it', s') \<Rightarrow>
          (case Next_times n it' s' of
             None \<Rightarrow> None
           | Some (seen, it'', s'') \<Rightarrow> Some ((ok, Value it', Error it') # seen, it'', s'')))"

text \<open>
  The test \<open>Update\<close> makes on the broker's reply, as a predicate of the reply's error:
  \<^verbatim>\<open>errors.As\<close> finds a \<^verbatim>\<open>JetStreamError\<close>, its \<^verbatim>\<open>APIError()\<close> is not nil, and the error code is
  \<^verbatim>\<open>JSErrCodeStreamWrongLastSequence\<close>. This is what "the broker reports a wrong expected
  sequence" means below.
\<close>

definition wrongLastSequence :: "error option \<Rightarrow> bool" where
  "wrongLastSequence err =
     (case err of
        None \<Rightarrow> False
      | Some e \<Rightarrow>
          (case errors_As e of
             None \<Rightarrow> False
           | Some apiErr \<Rightarrow>
               (case JetStreamError_APIError apiErr of
                  None \<Rightarrow> False
                | Some a \<Rightarrow> ErrorCode a = JSErrCodeStreamWrongLastSequence)))"

subsection \<open>Observing the broker calls\<close>

text \<open>
  To state which calls an operation makes, a broker is wrapped so that every method notes
  its call (with the subject it was given, if it takes one) in a log and then does what
  the wrapped broker does.
\<close>

datatype call =
    CallGet string
  | CallGetRevision string uint64
  | CallHistory string
  | CallPut string bytes
  | CallUpdate string bytes uint64
  | CallDelete string
  | CallWatchAll "WatchOpt list"

fun call_subject :: "call \<Rightarrow> string option" where
  "call_subject (CallGet subj) = Some subj"
| "call_subject (CallGetRevision subj r) = Some subj"
| "call_subject (CallHistory subj) = Some subj"
| "call_subject (CallPut subj b) = Some subj"
| "call_subject (CallUpdate subj b r) = Some subj"
| "call_subject (CallDelete subj) = Some subj"
| "call_subject (CallWatchAll opts) = None"

definition recordWatcher :: "'s KeyWatcher \<Rightarrow> (call list \<times> 's) KeyWatcher" where
  "recordWatcher w =
     \<lparr>Updates_recv = (\<lambda>(log, s). case Updates_recv w s of
                                   None \<Rightarrow> None
                                 | Some (u, s') \<Rightarrow> Some (u, (log, s'))),
      watcherStop = (\<lambda>(log, s). case watcherStop w s of (e, s') \<Rightarrow> (e, (log, s')))\<rparr>"

definition recordCalls :: "('c, 's) KeyValue \<Rightarrow> ('c, call list \<times> 's) KeyValue" where
  "recordCalls k =
     \<lparr>kvGet = (\<lambda>ctx subj (log, s).
         case kvGet k ctx subj s of (r, s') \<Rightarrow> (r, (log @ [CallGet subj], s'))),
      kvGetRevision = (\<lambda>ctx subj n (log, s).
         case kvGetRevision k ctx subj n s of
           (r, s') \<Rightarrow> (r, (log @ [CallGetRevision subj n], s'))),
      kvHistory = (\<lambda>ctx subj (log, s).
         case kvHistory k ctx subj s of (r, s') \<Rightarrow> (r, (log @ [CallHistory subj], s'))),
      kvPut = (\<lambda>ctx subj b (log, s).
         case kvPut k ctx subj b s of (r, s') \<Rightarrow> (r, (log @ [CallPut subj b], s'))),
      kvUpdate = (\<lambda>ctx subj b n (log, s).
         case kvUpdate k ctx subj b n s of
           (r, s') \<Rightarrow> (r, (log @ [CallUpdate subj b n], s'))),
      kvDelete = (\<lambda>ctx subj (log, s).
         case kvDelete k ctx subj s of (r, s') \<Rightarrow> (r, (log @ [CallDelete subj], s'))),
      kvWatchAll = (\<lambda>ctx opts (log, s).
         case kvWatchAll k ctx opts s of
           (Inl e, s') \<Rightarrow> (Inl e, (log @ [CallWatchAll opts], s'))
         | (Inr w, s') \<Rightarrow> (Inr (recordWatcher w), (log @ [CallWatchAll opts], s')))\<rparr>"

text \<open>The log after an operation that ran on a recording broker.\<close>

definition calls_of :: "'r \<times> call list \<times> 's \<Rightarrow> call list" where
  "calls_of r = fst (snd r)"

section \<open>The batch processor (batch.go, and the version with a logger and options)\<close>

text \<open>
  A \<^verbatim>\<open>jetstream.Msg\<close> is known by its stream sequence number and carries its payload. The
  consumer's side: \<open>Fetch\<close> gives an error or the messages its channel delivers until it is
  closed; \<open>Ack\<close> and \<open>Nak\<close> of a message act on the state \<open>'u\<close> of the world outside and
  may fail.
\<close>

record Msg =
  msgSeq :: nat
  msgData :: bytes

datatype FetchOpt = FetchMaxWait nat

record 'u Consumer =
  Fetch :: "int \<Rightarrow> FetchOpt list \<Rightarrow> 'u \<Rightarrow> (error + Msg list) \<times> 'u"
  msgAck :: "Msg \<Rightarrow> 'u \<Rightarrow> error option \<times> 'u"
  msgNak :: "Msg \<Rightarrow> 'u \<Rightarrow> error option \<times> 'u"

text \<open>
  The struct of batch.go. The handler and the hook are the caller's code and may act on the
  world too; the hook is optional (nil is \<open>None\<close>). The handler is handed the slice
  \<open>msgBodies\<close> itself and may write into it while it runs, so it returns, with its outcomes,
  the elements it leaves in the slice. The caller's slice keeps its length: of what the
  handler leaves, the elements beyond that length do not count, and elements it does not
  give are as they were (\<open>slice_after\<close>). The hook is handed one element of the slice, by
  value, and \<open>Ack\<close> and \<open>Nak\<close> are handed nothing of it: the slice is passed to the handler
  only, once.
\<close>

definition slice_after :: "'a list \<Rightarrow> 'a list \<Rightarrow> 'a list" where
  "slice_after msgBodies written =
     take (length msgBodies) (written @ drop (length written) msgBodies)"

record ('a, 'c, 'u) BatchProcessor =
  consumer :: "'u Consumer"
  batchSize :: int
  processor :: "'c \<Rightarrow> 'a list \<Rightarrow> 'u \<Rightarrow> error option list \<times> 'a list \<times> 'u"
  fetchOpts :: "FetchOpt list"
  ErrorHandler :: "('a \<Rightarrow> error \<Rightarrow> 'u \<Rightarrow> 'u) option"

definition NewBatchProcessor ::
  "'u Consumer \<Rightarrow> int \<Rightarrow> ('c \<Rightarrow> 'a list \<Rightarrow> 'u \<Rightarrow> error option list \<times> 'a list \<times> 'u) \<Rightarrow>
   FetchOpt list \<Rightarrow>
   ('a, 'c, 'u) BatchProcessor" where
  "NewBatchProcessor cons bsize p opts =
     \<lparr>consumer = cons, batchSize = bsize, processor = p, fetchOpts = opts,
      ErrorHandler = None\<rparr>"

text \<open>
  The loop over the fetched messages. A message that does not decode is acknowledged at
  once and skipped; if that acknowledgement fails the loop returns the joined error. The
  others are appended to \<open>msgBodies\<close> and \<open>msgs\<close>.
\<close>

fun Process_decode ::
  "'a stdlib \<Rightarrow> 'u Consumer \<Rightarrow> Msg list \<Rightarrow> 'a list \<Rightarrow> Msg list \<Rightarrow> 'u \<Rightarrow>
   (error option + 'a list \<times> Msg list) \<times> 'u" where
  "Process_decode T c [] msgBodies msgs u = (Inr (msgBodies, msgs), u)"
| "Process_decode T c (msg # mb) msgBodies msgs u =
     (case json_Unmarshal T (msgData msg) (zeroT T) of
        (fr, Some err) \<Rightarrow>
          (case msgAck c msg u of
             (Some ackErr, u') \<Rightarrow>
               (Inl (errors_Join
                  [Some (fmtError ''failed to unmarshal, skipping invalid message: '' err),
                   Some ackErr]), u')
           | (None, u') \<Rightarrow> Process_decode T c mb msgBodies msgs u')
      | (fr, None) \<Rightarrow> Process_decode T c mb (msgBodies @ [fr]) (msgs @ [msg]) u)"

text \<open>
  The loop over the handler's outcomes, from index \<open>i\<close> on: \<open>Ack\<close> for a nil outcome;
  otherwise the hook, if there is one, and \<open>Nak\<close>. The result of each call is kept.
\<close>

fun Process_resolve ::
  "('a, 'c, 'u, 'z) BatchProcessor_scheme \<Rightarrow> 'a list \<Rightarrow> Msg list \<Rightarrow> nat \<Rightarrow>
   error option list \<Rightarrow> 'u \<Rightarrow> error option list \<times> 'u" where
  "Process_resolve b msgBodies msgs i [] u = ([], u)"
| "Process_resolve b msgBodies msgs i (None # errs) u =
     (case msgAck (consumer b) (msgs ! i) u of
        (r, u') \<Rightarrow>
          (case Process_resolve b msgBodies msgs (Suc i) errs u' of
             (rs, u'') \<Rightarrow> (r # rs, u'')))"
| "Process_resolve b msgBodies msgs i (Some err # errs) u =
     (case msgNak (consumer b) (msgs ! i)
             (case ErrorHandler b of None \<Rightarrow> u | Some h \<Rightarrow> h (msgBodies ! i) err u) of
        (r, u') \<Rightarrow>
          (case Process_resolve b msgBodies msgs (Suc i) errs u' of
             (rs, u'') \<Rightarrow> (r # rs, u'')))"

definition Process ::
  "'a stdlib \<Rightarrow> ('a, 'c, 'u, 'z) BatchProcessor_scheme \<Rightarrow> 'c \<Rightarrow> 'u \<Rightarrow> error option \<times> 'u" where
  "Process T b ctx u =
     (case Fetch (consumer b) (batchSize b) (fetchOpts b) u of
        (Inl err, u1) \<Rightarrow> (Some (wrapError ''failed to fetch: '' err), u1)
      | (Inr mb, u1) \<Rightarrow>
          (case Process_decode T (consumer b) mb [] [] u1 of
             (Inl e, u2) \<Rightarrow> (e, u2)
           | (Inr (msgBodies, msgs), u2) \<Rightarrow>
               if length msgs = 0 then (None, u2)
               else
                 (case processor b ctx msgBodies u2 of
                    (errs, written, u3) \<Rightarrow>
                      if length errs \<noteq> length msgs
                      then (Some (countError (length msgs) (length errs)), u3)
                      else
                        (case Process_resolve b (slice_after msgBodies written) msgs 0 errs
                                u3 of
                           (nackAckErrs, u4) \<Rightarrow> (errors_Join nackAckErrs, u4)))))"

subsection \<open>The version with a logger and options\<close>

text \<open>
  A \<^verbatim>\<open>*slog.Logger\<close> is the level of its handler and whether it writes to \<^verbatim>\<open>io.Discard\<close>; what
  it writes goes to a sink of its own, apart from the state the consumer, the handler and
  the hook act on.
\<close>

datatype Level = LevelDebug | LevelInfo | LevelWarn | LevelError

fun Level_int :: "Level \<Rightarrow> int" where
  "Level_int LevelDebug = - 4"
| "Level_int LevelInfo = 0"
| "Level_int LevelWarn = 4"
| "Level_int LevelError = 8"

datatype Attr = slog_Int string int | slog_Any string error

record LogRecord =
  recLevel :: Level
  recMessage :: string
  recAttrs :: "Attr list"

record Logger =
  toDiscard :: bool
  AddSource :: bool
  handlerLevel :: Level

definition Logger_log ::
  "Logger \<Rightarrow> Level \<Rightarrow> string \<Rightarrow> Attr list \<Rightarrow> LogRecord list \<Rightarrow> LogRecord list" where
  "Logger_log l lv msg attrs sink =
     (if Level_int (handlerLevel l) \<le> Level_int lv \<and> \<not> toDiscard l
      then sink @ [\<lparr>recLevel = lv, recMessage = msg, recAttrs = attrs\<rparr>]
      else sink)"

record ('a, 'c, 'u) BatchProcessor_logged = "('a, 'c, 'u) BatchProcessor" +
  Log :: "Logger option"

definition WithLogger ::
  "Logger option \<Rightarrow> ('a, 'c, 'u) BatchProcessor_logged \<Rightarrow> ('a, 'c, 'u) BatchProcessor_logged" where
  "WithLogger lg bp = bp\<lparr>Log := lg\<rparr>"

definition WithFetchOpts ::
  "FetchOpt list \<Rightarrow> ('a, 'c, 'u) BatchProcessor_logged \<Rightarrow> ('a, 'c, 'u) BatchProcessor_logged" where
  "WithFetchOpts opts bp = bp\<lparr>fetchOpts := fetchOpts bp @ opts\<rparr>"

definition NewBatchProcessor_logged ::
  "'u Consumer \<Rightarrow> int \<Rightarrow> ('c \<Rightarrow> 'a list \<Rightarrow> 'u \<Rightarrow> error option list \<times> 'a list \<times> 'u) \<Rightarrow>
   (('a, 'c, 'u) BatchProcessor_logged \<Rightarrow> ('a, 'c, 'u) BatchProcessor_logged) list \<Rightarrow>
   ('a, 'c, 'u) BatchProcessor_logged" where
  "NewBatchProcessor_logged cons bsize p opts =
     (let bp = fold (\<lambda>opt bp. opt bp) opts
                 \<lparr>consumer = cons, batchSize = bsize, processor = p, fetchOpts = [],
                  ErrorHandler = None, Log = None\<rparr>
      in if Log bp = None
         then bp\<lparr>Log := Some \<lparr>toDiscard = True, AddSource = True, handlerLevel = LevelError\<rparr>\<rparr>
         else bp)"

fun Process_resolve_logged ::
  "Logger \<Rightarrow> ('a, 'c, 'u) BatchProcessor_logged \<Rightarrow> 'a list \<Rightarrow> Msg list \<Rightarrow> nat \<Rightarrow>
   error option list \<Rightarrow> int \<Rightarrow> 'u \<times> LogRecord list \<Rightarrow>
   error option list \<times> int \<times> 'u \<times> LogRecord list" where
  "Process_resolve_logged lg b msgBodies msgs i [] errCount w = ([], errCount, w)"
| "Process_resolve_logged lg b msgBodies msgs i (None # errs) errCount (u, sink) =
     (case msgAck (consumer b) (msgs ! i) u of
        (r, u') \<Rightarrow>
          (case Process_resolve_logged lg b msgBodies msgs (Suc i) errs errCount (u', sink) of
             (rs, n, w) \<Rightarrow> (r # rs, n, w)))"
| "Process_resolve_logged lg b msgBodies msgs i (Some err # errs) errCount (u, sink) =
     (case msgNak (consumer b) (msgs ! i)
             (case ErrorHandler b of None \<Rightarrow> u | Some h \<Rightarrow> h (msgBodies ! i) err u) of
        (r, u') \<Rightarrow>
          (case Process_resolve_logged lg b msgBodies msgs (Suc i) errs (errCount + 1)
                  (u', Logger_log lg LevelWarn ''Error processing message''
                         [slog_Any ''error'' err] sink) of
             (rs, n, w) \<Rightarrow> (r # rs, n, w)))"

text \<open>
  \<open>Process\<close> of the version with logging. A nil \<open>Log\<close> makes the first line panic: the
  call returns nothing (\<open>None\<close>).
\<close>

definition Process_logged ::
  "'a stdlib \<Rightarrow> ('a, 'c, 'u) BatchProcessor_logged \<Rightarrow> 'c \<Rightarrow> 'u \<times> LogRecord list \<Rightarrow>
   (error option \<times> 'u \<times> LogRecord list) option" where
  "Process_logged T b ctx w =
     (case Log b of
        None \<Rightarrow> None
      | Some lg \<Rightarrow>
          Some
           (case w of (u, sink0) \<Rightarrow>
             (let sink1 = Logger_log lg LevelDebug ''Fetching batch'' [] sink0 in
              case Fetch (consumer b) (batchSize b) (fetchOpts b) u of
                (Inl err, u1) \<Rightarrow> (Some (wrapError ''failed to fetch: '' err), u1, sink1)
              | (Inr mb, u1) \<Rightarrow>
                  (let sink2 = Logger_log lg LevelDebug ''Reading messages'' [] sink1 in
                   case Process_decode T (consumer b) mb [] [] u1 of
                     (Inl e, u2) \<Rightarrow> (e, u2, sink2)
                   | (Inr (msgBodies, msgs), u2) \<Rightarrow>
                       if length msgs = 0
                       then (None, u2,
                             Logger_log lg LevelDebug ''No messages, returning'' [] sink2)
                       else
                         (let sink3 = Logger_log lg LevelDebug ''Processing messages''
                                        [slog_Int ''count'' (int (length msgs))] sink2 in
                          case processor b ctx msgBodies u2 of
                            (errs, written, u3) \<Rightarrow>
                              if length errs \<noteq> length msgs
                              then (Some (countError (length msgs) (length errs)), u3, sink3)
                              else
                                (let sink4 = Logger_log lg LevelDebug ''Acknowledging messages''
                                               [slog_Int ''count'' (int (length msgs))] sink3 in
                                 case Process_resolve_logged lg b
                                        (slice_after msgBodies written) msgs 0 errs 0
                                        (u3, sink4) of
                                   (nackAckErrs, errCount, u4, sink5) \<Rightarrow>
                                     (errors_Join nackAckErrs, u4,
                                      Logger_log lg LevelDebug ''Acknowledged messages''
                                        [slog_Int ''acks'' (int (length msgs) - errCount),
                                         slog_Int ''nacks'' errCount] sink5)))))))"

subsection \<open>Observing a run\<close>

text \<open>
  The events of a run, in order: the fetch with what it returned, each \<open>Ack\<close> and \<open>Nak\<close>
  with its result, the call of the handler with its argument, the outcomes it returned and
  the slice as it left it, and each call of the hook with the value it was given.
  A processor is wrapped so that the consumer, the handler and the hook note their calls in
  a trace and then do what the wrapped ones do.
\<close>

datatype 'a event =
    EvFetch int "FetchOpt list" "error + Msg list"
  | EvAck Msg "error option"
  | EvNak Msg "error option"
  | EvProcessor "'a list" "error option list" "'a list"
  | EvErrorHandler 'a error

definition observeConsumer :: "'u Consumer \<Rightarrow> ('a event list \<times> 'u) Consumer" where
  "observeConsumer c =
     \<lparr>Fetch = (\<lambda>n opts (tr, u).
         case Fetch c n opts u of (r, u') \<Rightarrow> (r, (tr @ [EvFetch n opts r], u'))),
      msgAck = (\<lambda>m (tr, u). case msgAck c m u of (r, u') \<Rightarrow> (r, (tr @ [EvAck m r], u'))),
      msgNak = (\<lambda>m (tr, u). case msgNak c m u of (r, u') \<Rightarrow> (r, (tr @ [EvNak m r], u')))\<rparr>"

definition observe ::
  "('a, 'c, 'u, 'z) BatchProcessor_scheme \<Rightarrow>
   ('a, 'c, 'a event list \<times> 'u, 'z) BatchProcessor_scheme" where
  "observe b =
     \<lparr>consumer = observeConsumer (consumer b),
      batchSize = batchSize b,
      processor = (\<lambda>ctx bodies (tr, u).
         case processor b ctx bodies u of
           (errs, written, u') \<Rightarrow>
             (errs, written,
              (tr @ [EvProcessor bodies errs (slice_after bodies written)], u'))),
      fetchOpts = fetchOpts b,
      ErrorHandler =
        (case ErrorHandler b of
           None \<Rightarrow> None
         | Some h \<Rightarrow> Some (\<lambda>body err (tr, u). (tr @ [EvErrorHandler body err], h body err u))),
      \<dots> = BatchProcessor.more b\<rparr>"

text \<open>What a run returned and its trace, for each version.\<close>

definition Process_run ::
  "'a stdlib \<Rightarrow> ('a, 'c, 'u, 'z) BatchProcessor_scheme \<Rightarrow> 'c \<Rightarrow> 'u \<Rightarrow>
   error option \<times> 'a event list" where
  "Process_run T b ctx u =
     (case Process T (observe b) ctx ([], u) of (r, tr, u') \<Rightarrow> (r, tr))"

definition Process_logged_run ::
  "'a stdlib \<Rightarrow> ('a, 'c, 'u) BatchProcessor_logged \<Rightarrow> 'c \<Rightarrow> 'u \<Rightarrow> LogRecord list \<Rightarrow>
   (error option \<times> 'a event list) option" where
  "Process_logged_run T b ctx u sink =
     (case Process_logged T (observe b) ctx (([], u), sink) of
        None \<Rightarrow> None
      | Some (r, (tr, u'), sink') \<Rightarrow> Some (r, tr))"

text \<open>
  Whether a message's payload decodes, and to what. The events the last loop is to
  produce, message by message: for a nil outcome the \<open>Ack\<close>; otherwise the hook, if one is
  set, on the element of the slice \<open>bodies\<close> at the message's index, and then the \<open>Nak\<close>;
  \<open>rs\<close> are the results of these calls.
\<close>

definition decodes :: "'a stdlib \<Rightarrow> Msg \<Rightarrow> bool" where
  "decodes T m = (snd (json_Unmarshal T (msgData m) (zeroT T)) = None)"

definition decoded :: "'a stdlib \<Rightarrow> Msg \<Rightarrow> 'a" where
  "decoded T m = fst (json_Unmarshal T (msgData m) (zeroT T))"

definition resolution_of ::
  "bool \<Rightarrow> 'a list \<Rightarrow> Msg list \<Rightarrow> nat \<Rightarrow> error option \<Rightarrow> error option \<Rightarrow> 'a event list" where
  "resolution_of hook bodies msgs i outcome r =
     (case outcome of
        None \<Rightarrow> [EvAck (msgs ! i) r]
      | Some err \<Rightarrow>
          (if hook then [EvErrorHandler (bodies ! i) err] else []) @ [EvNak (msgs ! i) r])"

definition resolution ::
  "bool \<Rightarrow> 'a list \<Rightarrow> Msg list \<Rightarrow> error option list \<Rightarrow> error option list \<Rightarrow> 'a event list" where
  "resolution hook bodies msgs errs rs =
     concat (map (\<lambda>i. resolution_of hook bodies msgs i (errs ! i) (rs ! i)) [0..<length msgs])"

abbreviation undecodable :: "'a stdlib \<Rightarrow> Msg list \<Rightarrow> Msg list" where
  "undecodable T mb \<equiv> filter (\<lambda>m. \<not> decodes T m) mb"

abbreviation decodable :: "'a stdlib \<Rightarrow> Msg list \<Rightarrow> Msg list" where
  "decodable T mb \<equiv> filter (decodes T) mb"

text \<open>
  The four ways a run goes on after a successful fetch of \<open>mb\<close>, as the trace \<open>tr'\<close> after
  the fetch and the result \<open>r\<close>: the acknowledgement of a message that does not decode
  fails; no message decodes; the handler breaks its contract; the outcomes are resolved.
\<close>

definition after_fetch ::
  "'a stdlib \<Rightarrow> bool \<Rightarrow> Msg list \<Rightarrow> error option \<Rightarrow> 'a event list \<Rightarrow> bool" where
  "after_fetch T hook mb r tr' =
     ((\<exists>pre m post decodeErr ackErr.
        mb = pre @ m # post
      \<and> snd (json_Unmarshal T (msgData m) (zeroT T)) = Some decodeErr
      \<and> tr' = map (\<lambda>m. EvAck m None) (undecodable T pre) @ [EvAck m (Some ackErr)]
      \<and> r = Some (joinError
               [fmtError ''failed to unmarshal, skipping invalid message: '' decodeErr,
                ackErr]))
    \<or> (decodable T mb = []
      \<and> tr' = map (\<lambda>m. EvAck m None) (undecodable T mb)
      \<and> r = None)
    \<or> (decodable T mb \<noteq> []
      \<and> (\<exists>errs left. length errs \<noteq> length (decodable T mb)
           \<and> tr' = map (\<lambda>m. EvAck m None) (undecodable T mb)
                    @ [EvProcessor (map (decoded T) (decodable T mb)) errs left]
           \<and> r = Some (countError (length (decodable T mb)) (length errs))))
    \<or> (decodable T mb \<noteq> []
      \<and> (\<exists>errs left rs. length errs = length (decodable T mb)
           \<and> length left = length (decodable T mb) \<and> length rs = length (decodable T mb)
           \<and> tr' = map (\<lambda>m. EvAck m None) (undecodable T mb)
                    @ EvProcessor (map (decoded T) (decodable T mb)) errs left
                    # resolution hook left (decodable T mb) errs rs
           \<and> r = errors_Join rs)))"

text \<open>The calls of the handler in a trace, and the messages acknowledged either way.\<close>

fun processor_calls :: "'a event list \<Rightarrow> ('a list \<times> error option list \<times> 'a list) list" where
  "processor_calls [] = []"
| "processor_calls (EvProcessor bodies errs left # tr) =
     (bodies, errs, left) # processor_calls tr"
| "processor_calls (e # tr) = processor_calls tr"

fun acked :: "'a event list \<Rightarrow> Msg list" where
  "acked [] = []"
| "acked (EvAck m r # tr) = m # acked tr"
| "acked (e # tr) = acked tr"

fun nacked :: "'a event list \<Rightarrow> Msg list" where
  "nacked [] = []"
| "nacked (EvNak m r # tr) = m # nacked tr"
| "nacked (e # tr) = nacked tr"

section \<open>A small instance for evaluation\<close>

text \<open>
  \<^verbatim>\<open>T\<close> is \<open>nat\<close>, encoded as one byte; any other payload fails to decode and leaves the
  target as it was. The digest is a stand-in (the first two bytes of the key). The brokers
  run on a state that is the feed of a watcher: the entries it will deliver, after which
  the channel is closed.
\<close>

definition toyT :: "nat stdlib" where
  "toyT = \<lparr>sha256_Sum = take 2,
           json_Marshal = (\<lambda>n. if n < 256 then Inr [word_of_nat n]
                                else Inl (errorString ''json: unsupported value'')),
           json_Unmarshal = (\<lambda>data v. case data of
                                [b] \<Rightarrow> (unat b, None)
                              | _ \<Rightarrow> (v, Some (errorString ''invalid character''))),
           zeroT = 0\<rparr>"

definition wrongSequenceReply :: error where
  "wrongSequenceReply =
     APIErr \<lparr>Code = 400, ErrorCode = 10071, Description = ''wrong last sequence: 2''\<rparr>"

definition chanWatcher :: "(KeyValueEntry option list) KeyWatcher" where
  "chanWatcher =
     \<lparr>Updates_recv = (\<lambda>q. case q of [] \<Rightarrow> Some (None, []) | u # us \<Rightarrow> Some (u, us)),
      watcherStop = (\<lambda>q. (None, []))\<rparr>"

text \<open>
  A broker that holds no key, refuses every conditional write as stale and cannot open a
  watch.
\<close>

definition emptyKV :: "(unit, KeyValueEntry option list) KeyValue" where
  "emptyKV =
     \<lparr>kvGet = (\<lambda>ctx subj s. (Inl ErrKeyNotFound, s)),
      kvGetRevision = (\<lambda>ctx subj r s. (Inl ErrKeyNotFound, s)),
      kvHistory = (\<lambda>ctx subj s. (Inl ErrKeyNotFound, s)),
      kvPut = (\<lambda>ctx subj b s. ((1, None), s)),
      kvUpdate = (\<lambda>ctx subj b l s. ((0, Some wrongSequenceReply), s)),
      kvDelete = (\<lambda>ctx subj s. (None, s)),
      kvWatchAll = (\<lambda>ctx opts s. (Inl (errorString ''nats: connection closed''), s))\<rparr>"

text \<open>
  A broker whose conditional write fails for another reason and whose watch delivers the
  feed.
\<close>

definition feedKV :: "(unit, KeyValueEntry option list) KeyValue" where
  "feedKV =
     \<lparr>kvGet = (\<lambda>ctx subj s. (Inl ErrKeyNotFound, s)),
      kvGetRevision = (\<lambda>ctx subj r s. (Inl ErrKeyNotFound, s)),
      kvHistory = (\<lambda>ctx subj s. (Inl ErrKeyNotFound, s)),
      kvPut = (\<lambda>ctx subj b s. ((1, None), s)),
      kvUpdate = (\<lambda>ctx subj b l s. ((7, Some (jsError None ''nats: timeout'')), s)),
      kvDelete = (\<lambda>ctx subj s. (None, s)),
      kvWatchAll = (\<lambda>ctx opts s. (Inr chanWatcher, s))\<rparr>"

text \<open>Two stored entries: one whose payload does not decode, one that decodes to 5.\<close>

definition badEntry :: KeyValueEntry where
  "badEntry = \<lparr>entryValue = [], entryRevision = 1\<rparr>"

definition goodEntry :: KeyValueEntry where
  "goodEntry = \<lparr>entryValue = [5], entryRevision = 2\<rparr>"

text \<open>
  Three messages, the second of which does not decode; a consumer that delivers a queue
  and whose \<open>Ack\<close> fails for the sequence numbers in \<open>stuck\<close> and otherwise notes the
  sequence number in the state; a handler that fails the value 7, one that does so and
  overwrites every element of its slice with 99, one that always returns a single outcome,
  and a hook that leaves a mark in the state.
\<close>

definition msgA :: Msg where
  "msgA = \<lparr>msgSeq = 1, msgData = [7]\<rparr>"

definition msgBad :: Msg where
  "msgBad = \<lparr>msgSeq = 2, msgData = [123, 32]\<rparr>"

definition msgB :: Msg where
  "msgB = \<lparr>msgSeq = 3, msgData = [8]\<rparr>"

definition queueConsumer :: "Msg list \<Rightarrow> nat list \<Rightarrow> (nat list) Consumer" where
  "queueConsumer queue stuck =
     \<lparr>Fetch = (\<lambda>n opts u. (Inr (take (nat n) queue), u)),
      msgAck = (\<lambda>m u. if msgSeq m \<in> set stuck then (Some (errorString ''nats: timeout''), u)
                        else (None, u @ [msgSeq m])),
      msgNak = (\<lambda>m u. (None, u))\<rparr>"

definition failSevens ::
  "unit \<Rightarrow> nat list \<Rightarrow> nat list \<Rightarrow> error option list \<times> nat list \<times> nat list" where
  "failSevens ctx bodies u =
     (map (\<lambda>x. if x = 7 then Some (errorString ''failed to process message'') else None) bodies,
      bodies, u)"

definition failSevensOverwriting ::
  "unit \<Rightarrow> nat list \<Rightarrow> nat list \<Rightarrow> error option list \<times> nat list \<times> nat list" where
  "failSevensOverwriting ctx bodies u =
     (map (\<lambda>x. if x = 7 then Some (errorString ''failed to process message'') else None) bodies,
      map (\<lambda>x. 99) bodies, u)"

definition tooFew ::
  "unit \<Rightarrow> nat list \<Rightarrow> nat list \<Rightarrow> error option list \<times> nat list \<times> nat list" where
  "tooFew ctx bodies u = ([None], bodies, u)"

definition noteHook :: "nat \<Rightarrow> error \<Rightarrow> nat list \<Rightarrow> nat list" where
  "noteHook body err u = u @ [0]"

definition bpHealthy :: "(nat, unit, nat list) BatchProcessor" where
  "bpHealthy =
     NewBatchProcessor (queueConsumer [msgA, msgBad, msgB] []) 10 failSevens [FetchMaxWait 1]"

definition bpTooFew :: "(nat, unit, nat list) BatchProcessor" where
  "bpTooFew =
     NewBatchProcessor (queueConsumer [msgA, msgBad, msgB] []) 10 tooFew [FetchMaxWait 1]"

definition bpOnlyBad :: "(nat, unit, nat list) BatchProcessor" where
  "bpOnlyBad = NewBatchProcessor (queueConsumer [msgBad] []) 10 failSevens [FetchMaxWait 1]"

definition blStuckBad :: "(nat, unit, nat list) BatchProcessor_logged" where
  "blStuckBad =
     NewBatchProcessor_logged (queueConsumer [msgA, msgBad, msgB] [2]) 10 failSevens
       [WithFetchOpts [FetchMaxWait 1]]"

definition blStuckB :: "(nat, unit, nat list) BatchProcessor_logged" where
  "blStuckB =
     (NewBatchProcessor_logged (queueConsumer [msgA, msgBad, msgB] [3]) 10 failSevens
        [WithFetchOpts [FetchMaxWait 1],
         WithLogger (Some \<lparr>toDiscard = False, AddSource = False, handlerLevel = LevelDebug\<rparr>)])
     \<lparr>ErrorHandler := Some noteHook\<rparr>"

definition blOverwriting :: "(nat, unit, nat list) BatchProcessor_logged" where
  "blOverwriting =
     (NewBatchProcessor_logged (queueConsumer [msgA, msgBad, msgB] [3]) 10 failSevensOverwriting
        [WithFetchOpts [FetchMaxWait 1]])
     \<lparr>ErrorHandler := Some noteHook\<rparr>"

definition blEmpty :: "(nat, unit, nat list) BatchProcessor_logged" where
  "blEmpty =
     NewBatchProcessor_logged (queueConsumer [] []) 10 failSevens
       [WithFetchOpts [FetchMaxWait 1]]"

section \<open>Properties of the key-value store\<close>

subsection \<open>Which replies are wrong-sequence faults\<close>

lemma wrongLastSequence_nil: "\<not> wrongLastSequence None"
  by (simp add: wrongLastSequence_def)

lemma wrongLastSequence_APIErr:
  "wrongLastSequence (Some (APIErr a)) = (ErrorCode a = JSErrCodeStreamWrongLastSequence)"
  by (simp add: wrongLastSequence_def)

lemma wrongLastSequence_jsError:
  "wrongLastSequence (Some (jsError (Some a) m)) = (ErrorCode a = JSErrCodeStreamWrongLastSequence)"
  by (simp add: wrongLastSequence_def)

lemma wrongLastSequence_jsError_nil: "\<not> wrongLastSequence (Some (jsError None m))"
  by (simp add: wrongLastSequence_def)

lemma wrongLastSequence_wrapError:
  "wrongLastSequence (Some (wrapError m e)) = wrongLastSequence (Some e)"
  by (simp add: wrongLastSequence_def)

lemma wrongLastSequence_sentinels:
  "\<not> wrongLastSequence (Some ErrKeyNotFound)"
  "\<not> wrongLastSequence (Some ErrOptimisticConcurrencyCheckFailed)"
  by (simp_all add: wrongLastSequence_def)

lemma Update_reply:
  assumes "json_Marshal T val = Inr entry"
    and "kvUpdate (kv db) ctx (keyToSubject T db key) entry last_rev s = ((revn, err), s')"
  shows "Update T db ctx key val last_rev s =
           (if wrongLastSequence err then ((0, Some ErrOptimisticConcurrencyCheckFailed), s')
            else ((revn, err), s'))"
  using assms
  by (simp add: Update_def wrongLastSequence_def split: option.splits)

text \<open>
  C1. When the value encodes and the broker's conditional write replies with a
  wrong-expected-sequence fault, \<open>Update\<close> returns revision 0 and the sentinel
  \<open>ErrOptimisticConcurrencyCheckFailed\<close>; on every other reply it returns the broker's
  revision and error unchanged, so the sentinel is the result only for that fault (or when
  the reply is the sentinel itself, passed through).
\<close>

theorem Update_wrong_sequence_only:
  assumes "json_Marshal T val = Inr entry"
    and "kvUpdate (kv db) ctx (keyToSubject T db key) entry last_rev s = ((revn, err), s')"
  shows "(wrongLastSequence err \<longrightarrow>
            Update T db ctx key val last_rev s =
              ((0, Some ErrOptimisticConcurrencyCheckFailed), s'))
       \<and> (\<not> wrongLastSequence err \<longrightarrow>
            Update T db ctx key val last_rev s = ((revn, err), s'))
       \<and> (snd (fst (Update T db ctx key val last_rev s)) =
              Some ErrOptimisticConcurrencyCheckFailed \<longrightarrow>
            wrongLastSequence err \<or> err = Some ErrOptimisticConcurrencyCheckFailed)"
  using Update_reply [OF assms] by simp

theorem Update_wrong_sequence_only_witness:
  "json_Marshal toyT 3 = Inr [3]
   \<and> kvUpdate (kv (NewKV emptyKV ''users'')) ()
        (keyToSubject toyT (NewKV emptyKV ''users'') ''user1'') [3] 1 [] =
        ((0, Some wrongSequenceReply), [])
   \<and> wrongLastSequence (Some wrongSequenceReply)
   \<and> Update toyT (NewKV emptyKV ''users'') () ''user1'' 3 1 [] =
        ((0, Some ErrOptimisticConcurrencyCheckFailed), [])
   \<and> kvUpdate (kv (NewKV feedKV ''users'')) ()
        (keyToSubject toyT (NewKV feedKV ''users'') ''user1'') [3] 1 [] =
        ((7, Some (jsError None ''nats: timeout'')), [])
   \<and> \<not> wrongLastSequence (Some (jsError None ''nats: timeout''))
   \<and> Update toyT (NewKV feedKV ''users'') () ''user1'' 3 1 [] =
        ((7, Some (jsError None ''nats: timeout'')), [])"
proof -
  have m: "json_Marshal toyT 3 = Inr [3]"
    by (simp add: toyT_def)
  have stale: "kvUpdate (kv (NewKV emptyKV ''users'')) ()
        (keyToSubject toyT (NewKV emptyKV ''users'') ''user1'') [3] 1 [] =
        ((0, Some wrongSequenceReply), [])"
    by (simp add: NewKV_def emptyKV_def)
  have other: "kvUpdate (kv (NewKV feedKV ''users'')) ()
        (keyToSubject toyT (NewKV feedKV ''users'') ''user1'') [3] 1 [] =
        ((7, Some (jsError None ''nats: timeout'')), [])"
    by (simp add: NewKV_def feedKV_def)
  have w: "wrongLastSequence (Some wrongSequenceReply)"
    by (simp add: wrongLastSequence_def wrongSequenceReply_def
        JSErrCodeStreamWrongLastSequence_def)
  have nw: "\<not> wrongLastSequence (Some (jsError None ''nats: timeout''))"
    by (simp add: wrongLastSequence_def)
  from Update_wrong_sequence_only [OF m stale] w
  have r1: "Update toyT (NewKV emptyKV ''users'') () ''user1'' 3 1 [] =
        ((0, Some ErrOptimisticConcurrencyCheckFailed), [])"
    by blast
  from Update_wrong_sequence_only [OF m other] nw
  have r2: "Update toyT (NewKV feedKV ''users'') () ''user1'' 3 1 [] =
        ((7, Some (jsError None ''nats: timeout'')), [])"
    by blast
  from m stale w r1 other nw r2 show ?thesis by blast
qed

subsection \<open>Absent keys\<close>

text \<open>
  C7. When the broker answers the read of a key's subject with \<open>ErrKeyNotFound\<close>, \<open>Get\<close>
  returns the zero value, revision 0, found = false and no error, \<open>GetRevision\<close> the zero
  value, found = false and no error, and \<open>History\<close> the empty sequence, found = false and
  no error.
\<close>

theorem not_found_is_no_error:
  "(kvGet (kv db) ctx (keyToSubject T db key) s = (Inl ErrKeyNotFound, s') \<longrightarrow>
      Get T db ctx key s = ((zeroT T, 0, False, None), s'))
 \<and> (kvGetRevision (kv db) ctx (keyToSubject T db key) revision s = (Inl ErrKeyNotFound, s') \<longrightarrow>
      GetRevision T db ctx key revision s = ((zeroT T, False, None), s'))
 \<and> (kvHistory (kv db) ctx (keyToSubject T db key) s = (Inl ErrKeyNotFound, s') \<longrightarrow>
      History T db ctx key s = (([], False, None), s'))"
  by (simp add: Get_def GetRevision_def History_def)

theorem not_found_is_no_error_witness:
  "kvGet (kv (NewKV emptyKV ''users'')) ()
      (keyToSubject toyT (NewKV emptyKV ''users'') ''non-existent-key'') [] =
      (Inl ErrKeyNotFound, [])
 \<and> Get toyT (NewKV emptyKV ''users'') () ''non-existent-key'' [] = ((0, 0, False, None), [])
 \<and> kvGetRevision (kv (NewKV emptyKV ''users'')) ()
      (keyToSubject toyT (NewKV emptyKV ''users'') ''non-existent-key'') 1 [] =
      (Inl ErrKeyNotFound, [])
 \<and> GetRevision toyT (NewKV emptyKV ''users'') () ''non-existent-key'' 1 [] =
      ((0, False, None), [])
 \<and> kvHistory (kv (NewKV emptyKV ''users'')) ()
      (keyToSubject toyT (NewKV emptyKV ''users'') ''non-existent-key'') [] =
      (Inl ErrKeyNotFound, [])
 \<and> History toyT (NewKV emptyKV ''users'') () ''non-existent-key'' [] =
      (([], False, None), [])"
proof -
  let ?db = "NewKV emptyKV ''users''"
  let ?subj = "keyToSubject toyT ?db ''non-existent-key''"
  have g: "kvGet (kv ?db) () ?subj [] = (Inl ErrKeyNotFound, [])"
    by (simp add: NewKV_def emptyKV_def)
  have r: "kvGetRevision (kv ?db) () ?subj 1 [] = (Inl ErrKeyNotFound, [])"
    by (simp add: NewKV_def emptyKV_def)
  have h: "kvHistory (kv ?db) () ?subj [] = (Inl ErrKeyNotFound, [])"
    by (simp add: NewKV_def emptyKV_def)
  have z: "zeroT toyT = 0"
    by (simp add: toyT_def)
  from not_found_is_no_error [of ?db "()" toyT "''non-existent-key''" "[]" "[]" 1] g r h z
  show ?thesis by simp
qed

subsection \<open>The subject of a key\<close>

lemma nibble_hi: "unat (drop_bit 4 (v :: 8 word)) < 16"
proof -
  have "unat v < 256" using unsigned_less [of v] by simp
  then have "unat v div 2 ^ 4 < 16" by simp
  moreover have "unat (drop_bit 4 v) = drop_bit 4 (unat v)" by (rule unat_drop_bit_eq)
  moreover have "drop_bit 4 (unat v) = unat v div 2 ^ 4" by (rule drop_bit_eq_div)
  ultimately show ?thesis by simp
qed

lemma nibble_lo: "unat ((v :: 8 word) AND 0x0f) < 16"
proof -
  have "v AND 0x0f \<le> 0x0f" by (rule word_and_le1)
  then have "unat (v AND 0x0f) \<le> unat (0x0f :: 8 word)" by (simp add: word_le_nat_alt)
  then show ?thesis by simp
qed

lemma hextable_digit: "n < 16 \<Longrightarrow> hextable ! n \<in> set hextable"
  by (rule nth_mem) (simp add: hextable_def)

lemma hex_EncodeToString_digits: "set (hex_EncodeToString src) \<subseteq> set hextable"
  by (auto simp: hex_EncodeToString_def nibble_hi nibble_lo hextable_digit)

lemma hex_EncodeToString_length: "length (hex_EncodeToString src) = 2 * length src"
  by (induction src) (simp_all add: hex_EncodeToString_def)

lemma Get_calls:
  "calls_of (Get T \<lparr>kv = recordCalls k, subject = p\<rparr> ctx key (log, s)) =
     log @ [CallGet (keyToSubject T \<lparr>kv = k, subject = p\<rparr> key)]"
  by (simp add: calls_of_def Get_def recordCalls_def keyToSubject_def
      split: prod.splits sum.splits)

lemma GetRevision_calls:
  "calls_of (GetRevision T \<lparr>kv = recordCalls k, subject = p\<rparr> ctx key n (log, s)) =
     log @ [CallGetRevision (keyToSubject T \<lparr>kv = k, subject = p\<rparr> key) n]"
  by (simp add: calls_of_def GetRevision_def recordCalls_def keyToSubject_def
      split: prod.splits sum.splits)

lemma History_calls:
  "calls_of (History T \<lparr>kv = recordCalls k, subject = p\<rparr> ctx key (log, s)) =
     log @ [CallHistory (keyToSubject T \<lparr>kv = k, subject = p\<rparr> key)]"
  by (simp add: calls_of_def History_def recordCalls_def keyToSubject_def
      split: prod.splits sum.splits)

lemma Put_calls:
  "calls_of (Put T \<lparr>kv = recordCalls k, subject = p\<rparr> ctx key val (log, s)) =
     (case json_Marshal T val of
        Inl e \<Rightarrow> log
      | Inr entry \<Rightarrow> log @ [CallPut (keyToSubject T \<lparr>kv = k, subject = p\<rparr> key) entry])"
  by (simp add: calls_of_def Put_def recordCalls_def keyToSubject_def
      split: prod.splits sum.splits)

lemma Update_calls:
  "calls_of (Update T \<lparr>kv = recordCalls k, subject = p\<rparr> ctx key val n (log, s)) =
     (case json_Marshal T val of
        Inl e \<Rightarrow> log
      | Inr entry \<Rightarrow> log @ [CallUpdate (keyToSubject T \<lparr>kv = k, subject = p\<rparr> key) entry n])"
  by (simp add: calls_of_def Update_def recordCalls_def keyToSubject_def
      split: prod.splits sum.splits option.splits)

lemma Delete_calls:
  "calls_of (Delete T \<lparr>kv = recordCalls k, subject = p\<rparr> ctx key (log, s)) =
     log @ [CallDelete (keyToSubject T \<lparr>kv = k, subject = p\<rparr> key)]"
  by (simp add: calls_of_def Delete_def recordCalls_def keyToSubject_def
      split: prod.splits sum.splits)

lemma List_calls:
  "calls_of (List T \<lparr>kv = recordCalls k, subject = p\<rparr> ctx (log, s)) =
     log @ [CallWatchAll [IgnoreDeletes]]"
  by (simp add: calls_of_def List_def recordCalls_def
      split: prod.splits sum.splits)

lemma List_ignores_subject:
  "List T \<lparr>kv = k, subject = p\<rparr> ctx s = List T \<lparr>kv = k, subject = q\<rparr> ctx s"
  by (simp add: List_def)

text \<open>
  C6, as stated, fails for \<open>List\<close>: its one broker call is \<open>WatchAll\<close> on the whole bucket,
  which carries no subject, so it does not go through the key-to-subject mapping.
\<close>

theorem List_call_has_no_subject_counterexample:
  "map call_subject
     (calls_of (List toyT \<lparr>kv = recordCalls feedKV, subject = ''users''\<rparr> () ([], []))) =
   [None]"
  by (simp add: List_calls)

text \<open>
  C6, amended. The subject of a key is the prefix, a dot and the digest of the key in
  lower-case hexadecimal digits, two for each byte of the digest. Each of \<open>Get\<close>,
  \<open>GetRevision\<close>, \<open>History\<close> and \<open>Delete\<close> makes exactly one broker call, \<open>Put\<close> and \<open>Update\<close>
  one call when the value encodes and none otherwise, and the call is addressed to the
  subject of the key. \<open>List\<close> takes no key: it makes one \<open>WatchAll\<close> call that ignores
  deletes, and the prefix plays no part in it.
\<close>

theorem keyed_operations_address_key_subject:
  "keyToSubject T \<lparr>kv = k, subject = p\<rparr> key =
     p @ ''.'' @ hex_EncodeToString (sha256_Sum T (string_bytes key))
 \<and> set (hex_EncodeToString (sha256_Sum T (string_bytes key))) \<subseteq> set ''0123456789abcdef''
 \<and> length (hex_EncodeToString (sha256_Sum T (string_bytes key))) =
     2 * length (sha256_Sum T (string_bytes key))
 \<and> calls_of (Get T \<lparr>kv = recordCalls k, subject = p\<rparr> ctx key (log, s)) =
     log @ [CallGet (keyToSubject T \<lparr>kv = k, subject = p\<rparr> key)]
 \<and> calls_of (GetRevision T \<lparr>kv = recordCalls k, subject = p\<rparr> ctx key n (log, s)) =
     log @ [CallGetRevision (keyToSubject T \<lparr>kv = k, subject = p\<rparr> key) n]
 \<and> calls_of (History T \<lparr>kv = recordCalls k, subject = p\<rparr> ctx key (log, s)) =
     log @ [CallHistory (keyToSubject T \<lparr>kv = k, subject = p\<rparr> key)]
 \<and> calls_of (Put T \<lparr>kv = recordCalls k, subject = p\<rparr> ctx key val (log, s)) =
     (case json_Marshal T val of
        Inl e \<Rightarrow> log
      | Inr entry \<Rightarrow> log @ [CallPut (keyToSubject T \<lparr>kv = k, subject = p\<rparr> key) entry])
 \<and> calls_of (Update T \<lparr>kv = recordCalls k, subject = p\<rparr> ctx key val n (log, s)) =
     (case json_Marshal T val of
        Inl e \<Rightarrow> log
      | Inr entry \<Rightarrow> log @ [CallUpdate (keyToSubject T \<lparr>kv = k, subject = p\<rparr> key) entry n])
 \<and> calls_of (Delete T \<lparr>kv = recordCalls k, subject = p\<rparr> ctx key (log, s)) =
     log @ [CallDelete (keyToSubject T \<lparr>kv = k, subject = p\<rparr> key)]
 \<and> calls_of (List T \<lparr>kv = recordCalls k, subject = p\<rparr> ctx (log, s)) =
     log @ [CallWatchAll [IgnoreDeletes]]
 \<and> List T \<lparr>kv = k, subject = p\<rparr> ctx s = List T \<lparr>kv = k, subject = q\<rparr> ctx s"
proof -
  have "set (hex_EncodeToString (sha256_Sum T (string_bytes key))) \<subseteq> set ''0123456789abcdef''"
    using hex_EncodeToString_digits [of "sha256_Sum T (string_bytes key)"]
    by (simp add: hextable_def)
  moreover have "keyToSubject T \<lparr>kv = k, subject = p\<rparr> key =
     p @ ''.'' @ hex_EncodeToString (sha256_Sum T (string_bytes key))"
    by (simp add: keyToSubject_def)
  moreover note hex_EncodeToString_length [of "sha256_Sum T (string_bytes key)"]
    Get_calls [of T k p ctx key log s] GetRevision_calls [of T k p ctx key n log s]
    History_calls [of T k p ctx key log s] Put_calls [of T k p ctx key val log s]
    Update_calls [of T k p ctx key val n log s] Delete_calls [of T k p ctx key log s]
    List_calls [of T k p ctx log s] List_ignores_subject [of T k p ctx s q]
  ultimately show ?thesis by blast
qed

subsection \<open>Listing\<close>

lemma failed_Next:
  assumes "next_fn it = (\<lambda>t. Some ((z, False, Some err), t))"
  shows "Next it t = Some (False, it\<lparr>Value := z, Error := Some err\<rparr>, t)"
  using assms by (simp add: Next_def)

lemma failed_Next_times:
  assumes "next_fn it = (\<lambda>t. Some ((z, False, Some err), t))"
  shows "\<exists>it'. Next_times n it t = Some (replicate n (False, z, Some err), it', t)
          \<and> next_fn it' = next_fn it \<and> stop_fn it' = stop_fn it"
  using assms
proof (induction n arbitrary: it)
  case 0
  then show ?case by simp
next
  case (Suc n)
  let ?it1 = "it\<lparr>Value := z, Error := Some err\<rparr>"
  have n1: "Next it t = Some (False, ?it1, t)"
    using Suc.prems by (rule failed_Next)
  have "next_fn ?it1 = (\<lambda>t. Some ((z, False, Some err), t))"
    using Suc.prems by simp
  from Suc.IH [OF this] obtain it' where
    "Next_times n ?it1 t = Some (replicate n (False, z, Some err), it', t)"
    "next_fn it' = next_fn ?it1" "stop_fn it' = stop_fn ?it1"
    by blast
  then show ?case using n1 by simp
qed

lemma List_watching:
  assumes "kvWatchAll (kv db) ctx [IgnoreDeletes] s0 = (Inr w, s1)"
  shows "\<exists>it0. List T db ctx s0 = (Some it0, s1) \<and> Value it0 = zeroT T \<and> Error it0 = None
     \<and> stop_fn it0 = watcherStop w
     \<and> next_fn it0 = (\<lambda>t. case Updates_recv w t of
                     None \<Rightarrow> None
                   | Some (None, t') \<Rightarrow> Some ((zeroT T, False, None), t')
                   | Some (Some update, t') \<Rightarrow>
                       (case json_Unmarshal T (entryValue update) (zeroT T) of
                          (v, Some err) \<Rightarrow> Some ((v, False, Some err), t')
                        | (v, None) \<Rightarrow> Some ((v, True, None), t')))"
  using assms by (simp add: List_def NewIterator_def)

text \<open>
  C8. \<open>List\<close> always returns an iterator (never nil). When the watch cannot be opened, the
  caller that calls \<open>Next\<close> on that iterator any number of times sees every call return at
  once with no item, the zero value in \<open>Value\<close> and the error of the watch in \<open>Error\<close>, the
  broker's state untouched; and \<open>Stop\<close>, before, between or after these calls, returns nil
  and touches nothing.
\<close>

theorem List_fails_closed:
  "fst (List T db ctx s) \<noteq> None
 \<and> (kvWatchAll (kv db) ctx [IgnoreDeletes] s = (Inl err, s') \<longrightarrow>
      (\<exists>it. List T db ctx s = (Some it, s')
         \<and> (\<forall>n t. \<exists>it'. Next_times n it t = Some (replicate n (False, zeroT T, Some err), it', t)
                       \<and> Stop it' t = (None, t))))"
proof -
  have nonnil: "fst (List T db ctx s) \<noteq> None"
    by (simp add: List_def NewIterator_def split: prod.splits sum.splits)
  have closed: "\<exists>it. List T db ctx s = (Some it, s')
         \<and> (\<forall>n t. \<exists>it'. Next_times n it t = Some (replicate n (False, zeroT T, Some err), it', t)
                       \<and> Stop it' t = (None, t))"
    if w: "kvWatchAll (kv db) ctx [IgnoreDeletes] s = (Inl err, s')"
  proof -
    let ?it = "\<lparr>next_fn = (\<lambda>t. Some ((zeroT T, False, Some err), t)), Value = zeroT T,
                 Error = None, stop_fn = (\<lambda>t. (None, t))\<rparr> :: ('a, 'b) Iterator"
    have l: "List T db ctx s = (Some ?it, s')"
      using w by (simp add: List_def NewIterator_def)
    have "\<exists>it'. Next_times n ?it t = Some (replicate n (False, zeroT T, Some err), it', t)
                       \<and> Stop it' t = (None, t)" for n t
    proof -
      have "next_fn ?it = (\<lambda>t. Some ((zeroT T, False, Some err), t))" by simp
      from failed_Next_times [OF this, of n t] obtain it' where
        "Next_times n ?it t = Some (replicate n (False, zeroT T, Some err), it', t)"
        "stop_fn it' = stop_fn ?it" by blast
      then show ?thesis by (auto simp: Stop_def)
    qed
    with l show ?thesis by blast
  qed
  from nonnil closed show ?thesis by blast
qed

theorem List_fails_closed_witness:
  "kvWatchAll (kv (NewKV emptyKV ''users'')) () [IgnoreDeletes] [Some goodEntry] =
     (Inl (errorString ''nats: connection closed''), [Some goodEntry])
 \<and> (case List toyT (NewKV emptyKV ''users'') () [Some goodEntry] of
      (Some it, s) \<Rightarrow>
        (case Next_times (Suc (Suc (Suc 0))) it s of
           Some (seen, it', s') \<Rightarrow> Some (seen, s', Stop it' s')
         | None \<Rightarrow> None)
    | (None, s) \<Rightarrow> None) =
   Some (replicate 3 (False, 0, Some (errorString ''nats: connection closed'')),
         [Some goodEntry], None, [Some goodEntry])"
proof -
  let ?db = "NewKV emptyKV ''users''"
  let ?e = "errorString ''nats: connection closed''"
  have w: "kvWatchAll (kv ?db) () [IgnoreDeletes] [Some goodEntry] = (Inl ?e, [Some goodEntry])"
    by (simp add: NewKV_def emptyKV_def)
  from List_fails_closed [of toyT ?db "()" "[Some goodEntry]" ?e "[Some goodEntry]"] w
  obtain it where l: "List toyT ?db () [Some goodEntry] = (Some it, [Some goodEntry])"
    and n: "\<And>n t. \<exists>it'. Next_times n it t = Some (replicate n (False, zeroT toyT, Some ?e), it', t)
                       \<and> Stop it' t = (None, t)"
    by blast
  from n [of "Suc (Suc (Suc 0))" "[Some goodEntry]"] obtain it' where
    "Next_times (Suc (Suc (Suc 0))) it [Some goodEntry] =
       Some (replicate (Suc (Suc (Suc 0))) (False, zeroT toyT, Some ?e), it', [Some goodEntry])"
    "Stop it' [Some goodEntry] = (None, [Some goodEntry])"
    by blast
  moreover have "zeroT toyT = 0" by (simp add: toyT_def)
  moreover have "replicate 3 (False, 0::nat, Some ?e) =
      replicate (Suc (Suc (Suc 0))) (False, 0, Some ?e)"
    by (simp add: numeral_3_eq_3)
  ultimately show ?thesis using w l by simp
qed

text \<open>
  C9, as stated, fails: the iterator keeps no record of a failed or exhausted call. After
  a \<open>Next\<close> that failed on an entry that does not decode, and after a \<open>Next\<close> that received
  the nil marker, the following \<open>Next\<close> receives the next update and produces it.
\<close>

theorem Next_after_failure_counterexample:
  "(case List toyT (NewKV feedKV ''users'') () [Some badEntry, Some goodEntry] of
      (Some it, s) \<Rightarrow> map_option fst (Next_times (Suc (Suc 0)) it s)
    | (None, s) \<Rightarrow> None) =
   Some [(False, 0, Some (errorString ''invalid character'')), (True, 5, None)]
 \<and> (case List toyT (NewKV feedKV ''users'') () [None, Some goodEntry] of
      (Some it, s) \<Rightarrow> map_option fst (Next_times (Suc (Suc 0)) it s)
    | (None, s) \<Rightarrow> None) =
   Some [(False, 0, None), (True, 5, None)]"
  by (simp add: List_def NewIterator_def NewKV_def feedKV_def chanWatcher_def toyT_def
      Next_def badEntry_def goodEntry_def)

text \<open>
  C9, amended. On the iterator \<open>List\<close> returns over an open watch, every \<open>Next\<close> call,
  whatever the earlier calls returned and left in \<open>Value\<close> and \<open>Error\<close>, makes one receive
  on the channel of updates: it does not return while the receive blocks; on nil it
  returns no item, with the zero value and a nil \<open>Error\<close>; on an entry that fails to decode
  it returns no item, with the decoding error in \<open>Error\<close>, for this call only (the entry is
  consumed, not retried); on an entry that decodes it returns the item.
\<close>

theorem Next_has_no_terminal_state:
  assumes "kvWatchAll (kv db) ctx [IgnoreDeletes] s0 = (Inr w, s1)"
  shows "\<exists>it0. List T db ctx s0 = (Some it0, s1)
     \<and> (\<forall>it s. next_fn it = next_fn it0 \<longrightarrow>
          Next it s =
            (case Updates_recv w s of
               None \<Rightarrow> None
             | Some (None, s') \<Rightarrow> Some (False, it\<lparr>Value := zeroT T, Error := None\<rparr>, s')
             | Some (Some update, s') \<Rightarrow>
                 (case json_Unmarshal T (entryValue update) (zeroT T) of
                    (v, Some err) \<Rightarrow> Some (False, it\<lparr>Value := v, Error := Some err\<rparr>, s')
                  | (v, None) \<Rightarrow> Some (True, it\<lparr>Value := v, Error := None\<rparr>, s'))))"
proof -
  from List_watching [OF assms, of T] obtain it0 where
    l: "List T db ctx s0 = (Some it0, s1)"
    and n: "next_fn it0 = (\<lambda>t. case Updates_recv w t of
                     None \<Rightarrow> None
                   | Some (None, t') \<Rightarrow> Some ((zeroT T, False, None), t')
                   | Some (Some update, t') \<Rightarrow>
                       (case json_Unmarshal T (entryValue update) (zeroT T) of
                          (v, Some err) \<Rightarrow> Some ((v, False, Some err), t')
                        | (v, None) \<Rightarrow> Some ((v, True, None), t')))"
    by blast
  have "Next it s =
            (case Updates_recv w s of
               None \<Rightarrow> None
             | Some (None, s') \<Rightarrow> Some (False, it\<lparr>Value := zeroT T, Error := None\<rparr>, s')
             | Some (Some update, s') \<Rightarrow>
                 (case json_Unmarshal T (entryValue update) (zeroT T) of
                    (v, Some err) \<Rightarrow> Some (False, it\<lparr>Value := v, Error := Some err\<rparr>, s')
                  | (v, None) \<Rightarrow> Some (True, it\<lparr>Value := v, Error := None\<rparr>, s')))"
    if "next_fn it = next_fn it0" for it s
    using that n by (simp add: Next_def split: option.splits prod.splits)
  with l show ?thesis by blast
qed

theorem Next_has_no_terminal_state_witness:
  "kvWatchAll (kv (NewKV feedKV ''users'')) () [IgnoreDeletes] [Some badEntry, Some goodEntry] =
     (Inr chanWatcher, [Some badEntry, Some goodEntry])
 \<and> (case List toyT (NewKV feedKV ''users'') () [Some badEntry, Some goodEntry] of
      (Some it, s) \<Rightarrow>
        (case Next it s of
           Some (ok, it', s') \<Rightarrow> Some ((ok, Value it', Error it', s'), map_option fst (Next it' s'))
         | None \<Rightarrow> None)
    | (None, s) \<Rightarrow> None) =
   Some ((False, 0, Some (errorString ''invalid character''), [Some goodEntry]), Some True)"
proof -
  let ?db = "NewKV feedKV ''users''"
  let ?feed = "[Some badEntry, Some goodEntry]"
  have w: "kvWatchAll (kv ?db) () [IgnoreDeletes] ?feed = (Inr chanWatcher, ?feed)"
    by (simp add: NewKV_def feedKV_def)
  from Next_has_no_terminal_state [OF w, of toyT] obtain it0 where
    l: "List toyT ?db () ?feed = (Some it0, ?feed)"
    and n: "\<And>it s. next_fn it = next_fn it0 \<Longrightarrow>
          Next it s =
            (case Updates_recv chanWatcher s of
               None \<Rightarrow> None
             | Some (None, s') \<Rightarrow> Some (False, it\<lparr>Value := zeroT toyT, Error := None\<rparr>, s')
             | Some (Some update, s') \<Rightarrow>
                 (case json_Unmarshal toyT (entryValue update) (zeroT toyT) of
                    (v, Some err) \<Rightarrow> Some (False, it\<lparr>Value := v, Error := Some err\<rparr>, s')
                  | (v, None) \<Rightarrow> Some (True, it\<lparr>Value := v, Error := None\<rparr>, s')))"
    by blast
  let ?it1 = "it0\<lparr>Value := 0, Error := Some (errorString ''invalid character'')\<rparr>"
  have n1: "Next it0 ?feed = Some (False, ?it1, [Some goodEntry])"
    using n [of it0 ?feed] by (simp add: chanWatcher_def toyT_def badEntry_def)
  have n2: "Next ?it1 [Some goodEntry] = Some (True, ?it1\<lparr>Value := 5, Error := None\<rparr>, [])"
    using n [of ?it1 "[Some goodEntry]"] by (simp add: chanWatcher_def toyT_def goodEntry_def)
  from w l n1 n2 show ?thesis by simp
qed

section \<open>Properties of the batch processor\<close>

subsection \<open>The trace of a run\<close>

lemma observe_fields [simp]:
  "consumer (observe b) = observeConsumer (consumer b)"
  "batchSize (observe b) = batchSize b"
  "fetchOpts (observe b) = fetchOpts b"
  "BatchProcessor.more (observe b) = BatchProcessor.more b"
  by (simp_all add: observe_def)

lemma observe_Log [simp]: "Log (observe b) = Log b"
  by (cases b) (simp add: observe_def)

lemma decode_observed:
  "Process_decode T (observeConsumer c) mb bodies msgs (tr, u) = (res, (tr', u')) \<Longrightarrow>
   (\<exists>pre m post decodeErr ackErr.
       mb = pre @ m # post
     \<and> snd (json_Unmarshal T (msgData m) (zeroT T)) = Some decodeErr
     \<and> tr' = tr @ map (\<lambda>m. EvAck m None) (filter (\<lambda>m. \<not> decodes T m) pre)
                @ [EvAck m (Some ackErr)]
     \<and> res = Inl (Some (joinError
               [fmtError ''failed to unmarshal, skipping invalid message: '' decodeErr,
                ackErr])))
 \<or> (tr' = tr @ map (\<lambda>m. EvAck m None) (filter (\<lambda>m. \<not> decodes T m) mb)
     \<and> res = Inr (bodies @ map (decoded T) (filter (decodes T) mb),
                   msgs @ filter (decodes T) mb))"
proof (induction mb arbitrary: bodies msgs tr u)
  case Nil
  then show ?case by simp
next
  case (Cons msg mb)
  obtain fr de where un: "json_Unmarshal T (msgData msg) (zeroT T) = (fr, de)"
    by (cases "json_Unmarshal T (msgData msg) (zeroT T)")
  show ?case
  proof (cases de)
    case None
    with un have d: "decodes T msg" "decoded T msg = fr"
      by (simp_all add: decodes_def decoded_def)
    from Cons.prems un None
    have "Process_decode T (observeConsumer c) mb (bodies @ [fr]) (msgs @ [msg]) (tr, u) =
            (res, (tr', u'))"
      by simp
    from Cons.IH [OF this] show ?thesis
    proof (elim disjE exE conjE)
      fix pre m post decodeErr ackErr
      assume "mb = pre @ m # post"
        "snd (json_Unmarshal T (msgData m) (zeroT T)) = Some decodeErr"
        "tr' = tr @ map (\<lambda>m. EvAck m None) (filter (\<lambda>m. \<not> decodes T m) pre)
                @ [EvAck m (Some ackErr)]"
        "res = Inl (Some (joinError
               [fmtError ''failed to unmarshal, skipping invalid message: '' decodeErr,
                ackErr]))"
      then have "msg # mb = (msg # pre) @ m # post
        \<and> snd (json_Unmarshal T (msgData m) (zeroT T)) = Some decodeErr
        \<and> tr' = tr @ map (\<lambda>m. EvAck m None) (filter (\<lambda>m. \<not> decodes T m) (msg # pre))
                @ [EvAck m (Some ackErr)]
        \<and> res = Inl (Some (joinError
               [fmtError ''failed to unmarshal, skipping invalid message: '' decodeErr,
                ackErr]))"
        using d by simp
      then show ?thesis by blast
    next
      assume "tr' = tr @ map (\<lambda>m. EvAck m None) (filter (\<lambda>m. \<not> decodes T m) mb)"
        "res = Inr ((bodies @ [fr]) @ map (decoded T) (filter (decodes T) mb),
                   (msgs @ [msg]) @ filter (decodes T) mb)"
      then show ?thesis using d by simp
    qed
  next
    case (Some decodeErr)
    with un have d: "\<not> decodes T msg" "snd (json_Unmarshal T (msgData msg) (zeroT T)) = Some decodeErr"
      by (simp_all add: decodes_def)
    obtain ar ua where ack: "msgAck c msg u = (ar, ua)"
      by (cases "msgAck c msg u")
    show ?thesis
    proof (cases ar)
      case None
      from Cons.prems un Some ack None
      have "Process_decode T (observeConsumer c) mb bodies msgs (tr @ [EvAck msg None], ua) =
              (res, (tr', u'))"
        by (simp add: observeConsumer_def)
      from Cons.IH [OF this] show ?thesis
      proof (elim disjE exE conjE)
        fix pre m post decodeErr' ackErr
        assume "mb = pre @ m # post"
          "snd (json_Unmarshal T (msgData m) (zeroT T)) = Some decodeErr'"
          "tr' = (tr @ [EvAck msg None]) @ map (\<lambda>m. EvAck m None) (filter (\<lambda>m. \<not> decodes T m) pre)
                  @ [EvAck m (Some ackErr)]"
          "res = Inl (Some (joinError
                 [fmtError ''failed to unmarshal, skipping invalid message: '' decodeErr',
                  ackErr]))"
        then have "msg # mb = (msg # pre) @ m # post
          \<and> snd (json_Unmarshal T (msgData m) (zeroT T)) = Some decodeErr'
          \<and> tr' = tr @ map (\<lambda>m. EvAck m None) (filter (\<lambda>m. \<not> decodes T m) (msg # pre))
                  @ [EvAck m (Some ackErr)]
          \<and> res = Inl (Some (joinError
                 [fmtError ''failed to unmarshal, skipping invalid message: '' decodeErr',
                  ackErr]))"
          using d by simp
        then show ?thesis by blast
      next
        assume "tr' = (tr @ [EvAck msg None]) @ map (\<lambda>m. EvAck m None) (filter (\<lambda>m. \<not> decodes T m) mb)"
          "res = Inr (bodies @ map (decoded T) (filter (decodes T) mb),
                     msgs @ filter (decodes T) mb)"
        then show ?thesis using d by simp
      qed
    next
      case (Some ackErr)
      from Cons.prems un \<open>de = Some decodeErr\<close> ack Some
      have "res = Inl (Some (joinError
                 [fmtError ''failed to unmarshal, skipping invalid message: '' decodeErr,
                  ackErr]))" "tr' = tr @ [EvAck msg (Some ackErr)]"
        by (simp_all add: observeConsumer_def errors_Join_def)
      then have "msg # mb = [] @ msg # mb
          \<and> snd (json_Unmarshal T (msgData msg) (zeroT T)) = Some decodeErr
          \<and> tr' = tr @ map (\<lambda>m. EvAck m None) (filter (\<lambda>m. \<not> decodes T m) [])
                  @ [EvAck msg (Some ackErr)]
          \<and> res = Inl (Some (joinError
                 [fmtError ''failed to unmarshal, skipping invalid message: '' decodeErr,
                  ackErr]))"
        using d by simp
      then show ?thesis by blast
    qed
  qed
qed

lemma observe_callbacks:
  "processor (observe b) = (\<lambda>ctx bodies (tr, u).
         case processor b ctx bodies u of
           (errs, written, u') \<Rightarrow>
             (errs, written,
              (tr @ [EvProcessor bodies errs (slice_after bodies written)], u')))"
  "ErrorHandler (observe b) =
        (case ErrorHandler b of
           None \<Rightarrow> None
         | Some h \<Rightarrow> Some (\<lambda>body err (tr, u). (tr @ [EvErrorHandler body err], h body err u)))"
  by (simp_all add: observe_def)

lemma upt_shift: "map f [0..<Suc n] = f 0 # map (\<lambda>j. f (Suc j)) [0..<n]"
proof -
  have "[0..<Suc n] = 0 # map Suc [0..<n]"
    by (simp add: upt_conv_Cons map_Suc_upt del: upt_Suc)
  then show ?thesis by (simp add: comp_def del: upt_Suc)
qed

lemma resolve_observed:
  "Process_resolve (observe b) bodies msgs i errs (tr, u) = (rs, (tr', u')) \<Longrightarrow>
   length rs = length errs
 \<and> tr' = tr @ concat (map (\<lambda>j. resolution_of (ErrorHandler b \<noteq> None) bodies msgs (i + j)
                                 (errs ! j) (rs ! j)) [0..<length errs])"
proof (induction errs arbitrary: i tr u rs)
  case Nil
  then show ?case by simp
next
  case (Cons outcome errs)
  show ?case
  proof (cases outcome)
    case None
    obtain r ua where ack: "msgAck (consumer b) (msgs ! i) u = (r, ua)"
      by (cases "msgAck (consumer b) (msgs ! i) u")
    obtain rs1 w1 where rest:
      "Process_resolve (observe b) bodies msgs (Suc i) errs (tr @ [EvAck (msgs ! i) r], ua) =
         (rs1, w1)"
      by (cases "Process_resolve (observe b) bodies msgs (Suc i) errs
                   (tr @ [EvAck (msgs ! i) r], ua)")
    from Cons.prems None ack rest have eq: "rs = r # rs1" "w1 = (tr', u')"
      by (simp_all add: observeConsumer_def)
    from Cons.IH [of "Suc i" "tr @ [EvAck (msgs ! i) r]" ua rs1 ] rest eq
    have ih: "length rs1 = length errs"
      "tr' = (tr @ [EvAck (msgs ! i) r]) @
         concat (map (\<lambda>j. resolution_of (ErrorHandler b \<noteq> None) bodies msgs (Suc i + j)
                             (errs ! j) (rs1 ! j)) [0..<length errs])"
      by simp_all
    have head: "resolution_of (ErrorHandler b \<noteq> None) bodies msgs i None r =
        [EvAck (msgs ! i) r]"
      by (simp add: resolution_of_def)
    show ?thesis
      using ih eq None head
      by (simp add: upt_shift del: upt_Suc)
  next
    case (Some err)
    let ?hook = "case ErrorHandler b of None \<Rightarrow> [] | Some h \<Rightarrow> [EvErrorHandler (bodies ! i) err]"
    let ?uh = "case ErrorHandler b of None \<Rightarrow> u | Some h \<Rightarrow> h (bodies ! i) err u"
    have hk: "(case ErrorHandler (observe b) of None \<Rightarrow> (tr, u)
               | Some h \<Rightarrow> h (bodies ! i) err (tr, u)) = (tr @ ?hook, ?uh)"
      by (simp add: observe_callbacks split: option.splits)
    obtain r ua where nak: "msgNak (consumer b) (msgs ! i) ?uh = (r, ua)"
      by (cases "msgNak (consumer b) (msgs ! i) ?uh")
    obtain rs1 w1 where rest:
      "Process_resolve (observe b) bodies msgs (Suc i) errs
         (tr @ ?hook @ [EvNak (msgs ! i) r], ua) = (rs1, w1)"
      by (cases "Process_resolve (observe b) bodies msgs (Suc i) errs
                   (tr @ ?hook @ [EvNak (msgs ! i) r], ua)")
    from Cons.prems Some nak rest hk have eq: "rs = r # rs1" "w1 = (tr', u')"
      by (simp_all add: observeConsumer_def)
    from Cons.IH [of "Suc i" "tr @ ?hook @ [EvNak (msgs ! i) r]" ua rs1] rest eq
    have ih: "length rs1 = length errs"
      "tr' = (tr @ ?hook @ [EvNak (msgs ! i) r]) @
         concat (map (\<lambda>j. resolution_of (ErrorHandler b \<noteq> None) bodies msgs (Suc i + j)
                             (errs ! j) (rs1 ! j)) [0..<length errs])"
      by simp_all
    have head: "resolution_of (ErrorHandler b \<noteq> None) bodies msgs i (Some err) r =
        ?hook @ [EvNak (msgs ! i) r]"
      by (simp add: resolution_of_def split: option.splits)
    show ?thesis
      using ih eq Some head
      by (simp add: upt_shift del: upt_Suc)
  qed
qed

lemma resolve_logged:
  "Process_resolve_logged lg b bodies msgs i errs n (u, sink) = (rs, n', u', sink') \<Longrightarrow>
   Process_resolve b bodies msgs i errs u = (rs, u')"
proof (induction errs arbitrary: i n u sink rs n' u' sink')
  case Nil
  then show ?case by simp
next
  case (Cons outcome errs)
  show ?case
  proof (cases outcome)
    case None
    obtain r ua where ack: "msgAck (consumer b) (msgs ! i) u = (r, ua)"
      by (cases "msgAck (consumer b) (msgs ! i) u")
    obtain rs1 n1 u1 sink1 where rest:
      "Process_resolve_logged lg b bodies msgs (Suc i) errs n (ua, sink) = (rs1, n1, u1, sink1)"
      by (cases "Process_resolve_logged lg b bodies msgs (Suc i) errs n (ua, sink)") auto
    from Cons.prems None ack rest have "rs = r # rs1" "u1 = u'" by simp_all
    with Cons.IH [OF rest] None ack show ?thesis by simp
  next
    case (Some err)
    let ?uh = "case ErrorHandler b of None \<Rightarrow> u | Some h \<Rightarrow> h (bodies ! i) err u"
    let ?sink = "Logger_log lg LevelWarn ''Error processing message'' [slog_Any ''error'' err] sink"
    obtain r ua where nak: "msgNak (consumer b) (msgs ! i) ?uh = (r, ua)"
      by (cases "msgNak (consumer b) (msgs ! i) ?uh")
    obtain rs1 n1 u1 sink1 where rest:
      "Process_resolve_logged lg b bodies msgs (Suc i) errs (n + 1) (ua, ?sink) =
         (rs1, n1, u1, sink1)"
      by (cases "Process_resolve_logged lg b bodies msgs (Suc i) errs (n + 1) (ua, ?sink)") auto
    from Cons.prems Some nak rest have "rs = r # rs1" "u1 = u'" by simp_all
    with Cons.IH [OF rest] Some nak show ?thesis by simp
  qed
qed

lemma Process_logged_eq:
  assumes "Log b = Some lg"
  shows "\<exists>sink'. Process_logged T b ctx (u, sink) =
           Some (fst (Process T b ctx u), snd (Process T b ctx u), sink')"
proof -
  obtain fr u1 where f: "Fetch (consumer b) (batchSize b) (fetchOpts b) u = (fr, u1)"
    by (cases "Fetch (consumer b) (batchSize b) (fetchOpts b) u")
  show ?thesis
  proof (cases fr)
    case (Inl err)
    with f assms show ?thesis by (simp add: Process_logged_def Process_def)
  next
    case (Inr mb)
    obtain dr u2 where d: "Process_decode T (consumer b) mb [] [] u1 = (dr, u2)"
      by (cases "Process_decode T (consumer b) mb [] [] u1")
    show ?thesis
    proof (cases dr)
      case (Inl e)
      with f Inr d assms show ?thesis by (simp add: Process_logged_def Process_def Let_def)
    next
      case (Inr bm)
      obtain msgBodies msgs where bm: "bm = (msgBodies, msgs)" by (cases bm)
      show ?thesis
      proof (cases "msgs = []")
        case True
        with f \<open>fr = Inr mb\<close> d Inr bm assms show ?thesis
          by (simp add: Process_logged_def Process_def Let_def)
      next
        case False
        obtain errs written u3 where p: "processor b ctx msgBodies u2 = (errs, written, u3)"
          by (cases "processor b ctx msgBodies u2") auto
        let ?left = "slice_after msgBodies written"
        show ?thesis
        proof (cases "length errs = length msgs")
          case neq: False
          with False f \<open>fr = Inr mb\<close> d Inr bm p assms show ?thesis
            by (simp add: Process_logged_def Process_def Let_def)
        next
          case True
          let ?sink4 = "Logger_log lg LevelDebug ''Acknowledging messages''
                          [slog_Int ''count'' (int (length msgs))]
                          (Logger_log lg LevelDebug ''Processing messages''
                             [slog_Int ''count'' (int (length msgs))]
                             (Logger_log lg LevelDebug ''Reading messages'' []
                                (Logger_log lg LevelDebug ''Fetching batch'' [] sink)))"
          obtain rs n u4 sink5 where r:
            "Process_resolve_logged lg b ?left msgs 0 errs 0 (u3, ?sink4) = (rs, n, u4, sink5)"
            by (cases "Process_resolve_logged lg b ?left msgs 0 errs 0 (u3, ?sink4)") auto
          from resolve_logged [OF r] have "Process_resolve b ?left msgs 0 errs u3 = (rs, u4)" .
          with r True False f \<open>fr = Inr mb\<close> d Inr bm p assms show ?thesis
            by (simp add: Process_logged_def Process_def Let_def)
        qed
      qed
    qed
  qed
qed

lemma Process_logged_run_eq:
  assumes "Log b = Some lg"
  shows "Process_logged_run T b ctx u sink = Some (Process_run T b ctx u)"
proof -
  have "Log (observe b) = Some lg" using assms by simp
  from Process_logged_eq [OF this, of T ctx "([], u)" sink] obtain sink' where
    "Process_logged T (observe b) ctx (([], u), sink) =
       Some (fst (Process T (observe b) ctx ([], u)),
             snd (Process T (observe b) ctx ([], u)), sink')"
    by blast
  then show ?thesis
    by (simp add: Process_logged_run_def Process_run_def split: prod.splits)
qed

lemma Process_run_fetched:
  fixes T :: "'a stdlib"
  assumes f: "Fetch (consumer b) (batchSize b) (fetchOpts b) u = (Inr mb, u1)"
    and run: "Process_run T b ctx u = (r, tr)"
  shows "\<exists>tr'. tr = EvFetch (batchSize b) (fetchOpts b) (Inr mb) # tr'
          \<and> after_fetch T (ErrorHandler b \<noteq> None) mb r tr'"
proof -
  let ?F = "EvFetch (batchSize b) (fetchOpts b) (Inr mb) :: 'a event"
  have fo: "Fetch (consumer (observe b)) (batchSize (observe b)) (fetchOpts (observe b)) ([], u) =
      (Inr mb, ([?F], u1))"
    using f by (simp add: observeConsumer_def)
  obtain dr tr2 u2 where d:
    "Process_decode T (observeConsumer (consumer b)) mb [] [] ([?F], u1) = (dr, (tr2, u2))"
    by (cases "Process_decode T (observeConsumer (consumer b)) mb [] [] ([?F], u1)") auto
  have "\<exists>tr'. tr = ?F # tr' \<and> after_fetch T (ErrorHandler b \<noteq> None) mb r tr'"
    using decode_observed [OF d]
  proof (elim disjE exE conjE)
    fix pre m post decodeErr ackErr
    assume a: "mb = pre @ m # post"
      "snd (json_Unmarshal T (msgData m) (zeroT T)) = Some decodeErr"
      "tr2 = [?F] @ map (\<lambda>m. EvAck m None) (undecodable T pre) @ [EvAck m (Some ackErr)]"
      "dr = Inl (Some (joinError
               [fmtError ''failed to unmarshal, skipping invalid message: '' decodeErr,
                ackErr]))"
    let ?tr' = "map (\<lambda>m. EvAck m None) (undecodable T pre) @ [EvAck m (Some ackErr)] :: 'a event list"
    from run fo d a(3,4) have r: "r = Some (joinError
               [fmtError ''failed to unmarshal, skipping invalid message: '' decodeErr,
                ackErr])"
      and t: "tr = ?F # ?tr'"
      by (simp_all add: Process_run_def Process_def)
    have "after_fetch T (ErrorHandler b \<noteq> None) mb r ?tr'"
      unfolding after_fetch_def using a(1,2) r by blast
    with t show ?thesis by blast
  next
    assume a: "tr2 = [?F] @ map (\<lambda>m. EvAck m None) (undecodable T mb)"
      "dr = Inr ([] @ map (decoded T) (decodable T mb), [] @ decodable T mb)"
    show ?thesis
    proof (cases "decodable T mb = []")
      case True
      let ?tr' = "map (\<lambda>m. EvAck m None) (undecodable T mb) :: 'a event list"
      from True run fo d a have r: "r = None" and t: "tr = ?F # ?tr'"
        by (simp_all add: Process_run_def Process_def)
      have "after_fetch T (ErrorHandler b \<noteq> None) mb r ?tr'"
        unfolding after_fetch_def using True r by blast
      with t show ?thesis by blast
    next
      case False
      let ?bodies = "map (decoded T) (decodable T mb)"
      obtain errs written u3 where p: "processor b ctx ?bodies u2 = (errs, written, u3)"
        by (cases "processor b ctx ?bodies u2") auto
      let ?left = "slice_after ?bodies written"
      let ?call = "EvProcessor ?bodies errs ?left"
      have ll: "length ?left = length (decodable T mb)"
        by (simp add: slice_after_def)
      from p have po: "processor (observe b) ctx ?bodies (tr2, u2) =
          (errs, written, (tr2 @ [?call], u3))"
        by (simp add: observe_callbacks)
      show ?thesis
      proof (cases "length errs = length (decodable T mb)")
        case neq: False
        let ?tr' = "map (\<lambda>m. EvAck m None) (undecodable T mb) @ [?call]"
        from neq False run fo d a po
        have r: "r = Some (countError (length (decodable T mb)) (length errs))"
          and t: "tr = ?F # ?tr'"
          by (simp_all add: Process_run_def Process_def)
        have "after_fetch T (ErrorHandler b \<noteq> None) mb r ?tr'"
          unfolding after_fetch_def using False neq r by blast
        with t show ?thesis by blast
      next
        case True
        obtain rs tr4 u4 where rr:
          "Process_resolve (observe b) ?left (decodable T mb) 0 errs
             (tr2 @ [?call], u3) = (rs, (tr4, u4))"
          by (cases "Process_resolve (observe b) ?left (decodable T mb) 0 errs
             (tr2 @ [?call], u3)") auto
        let ?tr' = "map (\<lambda>m. EvAck m None) (undecodable T mb) @ ?call
              # resolution (ErrorHandler b \<noteq> None) ?left (decodable T mb) errs rs"
        from resolve_observed [OF rr] True
        have l: "length rs = length (decodable T mb)"
          and t4: "tr4 = (tr2 @ [?call]) @
              resolution (ErrorHandler b \<noteq> None) ?left (decodable T mb) errs rs"
          by (simp_all add: resolution_def)
        from True False run fo d a po rr have r: "r = errors_Join rs" and "tr = tr4"
          by (simp_all add: Process_run_def Process_def)
        with t4 a(1) have t: "tr = ?F # ?tr'"
          by simp
        have "after_fetch T (ErrorHandler b \<noteq> None) mb r ?tr'"
          unfolding after_fetch_def using False True l ll r by blast
        with t show ?thesis by blast
      qed
    qed
  qed
  then show ?thesis .
qed

lemma Process_run_cases:
  fixes T :: "'a stdlib"
  assumes run: "Process_run T b ctx u = (r, tr)"
  shows
   "(\<exists>err. tr = [EvFetch (batchSize b) (fetchOpts b) (Inl err)]
       \<and> r = Some (wrapError ''failed to fetch: '' err))
  \<or> (\<exists>mb tr'. tr = EvFetch (batchSize b) (fetchOpts b) (Inr mb) # tr'
       \<and> after_fetch T (ErrorHandler b \<noteq> None) mb r tr')"
proof -
  obtain fr u1 where f: "Fetch (consumer b) (batchSize b) (fetchOpts b) u = (fr, u1)"
    by (cases "Fetch (consumer b) (batchSize b) (fetchOpts b) u")
  show ?thesis
  proof (cases fr)
    case (Inl err)
    have "Fetch (consumer (observe b)) (batchSize (observe b)) (fetchOpts (observe b)) ([], u) =
      (Inl err, ([EvFetch (batchSize b) (fetchOpts b) (Inl err)], u1))"
      using f Inl by (simp add: observeConsumer_def)
    with run have "tr = [EvFetch (batchSize b) (fetchOpts b) (Inl err)]"
      "r = Some (wrapError ''failed to fetch: '' err)"
      by (simp_all add: Process_run_def Process_def)
    then show ?thesis by blast
  next
    case (Inr mb)
    with f have "Fetch (consumer b) (batchSize b) (fetchOpts b) u = (Inr mb, u1)" by simp
    from Process_run_fetched [OF this run] show ?thesis by blast
  qed
qed

lemma processor_calls_append [simp]:
  "processor_calls (xs @ ys) = processor_calls xs @ processor_calls ys"
  by (induction xs rule: processor_calls.induct) simp_all

lemma acked_append [simp]: "acked (xs @ ys) = acked xs @ acked ys"
  by (induction xs rule: acked.induct) simp_all

lemma nacked_append [simp]: "nacked (xs @ ys) = nacked xs @ nacked ys"
  by (induction xs rule: nacked.induct) simp_all

lemma acks_only [simp]:
  "processor_calls (map (\<lambda>m. EvAck m r) ms) = []"
  "acked (map (\<lambda>m. EvAck m r) ms) = ms"
  "nacked (map (\<lambda>m. EvAck m r) ms) = []"
  by (induction ms) simp_all

lemma processor_calls_concat:
  "(\<And>x. x \<in> set xss \<Longrightarrow> processor_calls x = []) \<Longrightarrow> processor_calls (concat xss) = []"
  by (induction xss) simp_all

lemma processor_calls_resolution [simp]:
  "processor_calls (resolution hook bodies msgs errs rs) = []"
  unfolding resolution_def
  by (rule processor_calls_concat) (auto simp: resolution_of_def split: option.splits)

lemma processor_calls_mem:
  "EvProcessor bodies errs left \<in> set tr \<longleftrightarrow>
     (bodies, errs, left) \<in> set (processor_calls tr)"
  by (induction tr rule: processor_calls.induct) auto

lemma errors_Join_nil: "errors_Join rs = None \<longleftrightarrow> (\<forall>x\<in>set rs. x = None)"
proof -
  have "List.map_filter id rs = [] \<longleftrightarrow> (\<forall>x\<in>set rs. x = None)"
    by (induction rs) (auto split: option.splits)
  then show ?thesis by (simp add: errors_Join_def Let_def)
qed

lemma logged_run_is_run:
  assumes "Process_logged_run T bl ctx u sink = Some (r, tr)"
  shows "Process_run T bl ctx u = (r, tr)"
proof (cases "Log bl")
  case None
  then have "Process_logged_run T bl ctx u sink = None"
    by (simp add: Process_logged_run_def Process_logged_def)
  with assms show ?thesis by simp
next
  case (Some lg)
  from Process_logged_run_eq [OF this, of T ctx u sink] assms show ?thesis by simp
qed

lemma run_after_fetch:
  fixes T :: "'a stdlib"
  assumes "(Process_run T b ctx u = (r, tr) \<and> hook = (ErrorHandler b \<noteq> None))
         \<or> (Process_logged_run T bl ctx ul sink = Some (r, tr)
             \<and> hook = (ErrorHandler bl \<noteq> None))"
    and "hd tr = EvFetch n opts (Inr mb)"
  shows "tr = EvFetch n opts (Inr mb) # tl tr \<and> after_fetch T hook mb r (tl tr)"
  using assms(1)
proof (elim disjE conjE)
  assume "Process_run T b ctx u = (r, tr)" "hook = (ErrorHandler b \<noteq> None)"
  with Process_run_cases [of T b ctx u r tr] assms(2) show ?thesis by auto
next
  assume "Process_logged_run T bl ctx ul sink = Some (r, tr)" "hook = (ErrorHandler bl \<noteq> None)"
  with Process_run_cases [of T bl ctx ul r tr] logged_run_is_run [of T bl ctx ul sink r tr]
    assms(2) show ?thesis by auto
qed

lemma resolution_acked:
  "acked (resolution hook bodies msgs errs rs) =
     map (\<lambda>i. msgs ! i) (filter (\<lambda>i. errs ! i = None) [0..<length msgs])"
proof -
  have "acked (concat (map (\<lambda>i. resolution_of hook bodies msgs i (errs ! i) (rs ! i)) is)) =
     map (\<lambda>i. msgs ! i) (filter (\<lambda>i. errs ! i = None) is)" for "is"
    by (induction "is") (auto simp: resolution_of_def split: option.splits)
  then show ?thesis by (simp add: resolution_def)
qed

lemma resolution_nacked:
  "nacked (resolution hook bodies msgs errs rs) =
     map (\<lambda>i. msgs ! i) (filter (\<lambda>i. errs ! i \<noteq> None) [0..<length msgs])"
proof -
  have "nacked (concat (map (\<lambda>i. resolution_of hook bodies msgs i (errs ! i) (rs ! i)) is)) =
     map (\<lambda>i. msgs ! i) (filter (\<lambda>i. errs ! i \<noteq> None) is)" for "is"
    by (induction "is") (auto simp: resolution_of_def split: option.splits)
  then show ?thesis by (simp add: resolution_def)
qed

lemma after_fetch_calls:
  assumes "after_fetch T hook mb r tr'"
  shows "processor_calls tr' = []
       \<or> (\<exists>errs left. processor_calls tr' = [(map (decoded T) (decodable T mb), errs, left)])"
  using assms unfolding after_fetch_def
  by (elim disjE exE conjE) simp_all

text \<open>
  Observing changes nothing: the wrapped processor returns what the processor returns and
  leaves the world as the processor leaves it.
\<close>

lemma decode_transparent:
  "Process_decode T (observeConsumer c) mb bodies msgs (tr, u) = (res, (tr', u')) \<Longrightarrow>
   Process_decode T c mb bodies msgs u = (res, u')"
proof (induction mb arbitrary: bodies msgs tr u)
  case Nil
  then show ?case by simp
next
  case (Cons msg mb)
  obtain fr de where un: "json_Unmarshal T (msgData msg) (zeroT T) = (fr, de)"
    by (cases "json_Unmarshal T (msgData msg) (zeroT T)")
  obtain ar ua where ack: "msgAck c msg u = (ar, ua)"
    by (cases "msgAck c msg u")
  show ?case
  proof (cases de)
    case None
    with Cons.prems un Cons.IH [of "bodies @ [fr]" "msgs @ [msg]" tr u] show ?thesis by simp
  next
    case (Some decodeErr)
    show ?thesis
    proof (cases ar)
      case None
      with Cons.prems un Some ack Cons.IH [of bodies msgs "tr @ [EvAck msg None]" ua]
      show ?thesis by (simp add: observeConsumer_def)
    next
      case ackErr: (Some e)
      with Cons.prems un Some ack show ?thesis by (simp add: observeConsumer_def)
    qed
  qed
qed

lemma resolve_transparent:
  "Process_resolve (observe b) bodies msgs i errs (tr, u) = (rs, (tr', u')) \<Longrightarrow>
   Process_resolve b bodies msgs i errs u = (rs, u')"
proof (induction errs arbitrary: i tr u rs tr' u')
  case Nil
  then show ?case by simp
next
  case (Cons outcome errs)
  show ?case
  proof (cases outcome)
    case None
    obtain r ua where ack: "msgAck (consumer b) (msgs ! i) u = (r, ua)"
      by (cases "msgAck (consumer b) (msgs ! i) u")
    obtain rs1 tr1 u1 where rest:
      "Process_resolve (observe b) bodies msgs (Suc i) errs (tr @ [EvAck (msgs ! i) r], ua) =
         (rs1, (tr1, u1))"
      by (cases "Process_resolve (observe b) bodies msgs (Suc i) errs
                   (tr @ [EvAck (msgs ! i) r], ua)") auto
    from Cons.prems None ack rest have "rs = r # rs1" "u1 = u'"
      by (simp_all add: observeConsumer_def)
    with Cons.IH [OF rest] None ack show ?thesis by simp
  next
    case (Some err)
    let ?hook = "case ErrorHandler b of None \<Rightarrow> [] | Some h \<Rightarrow> [EvErrorHandler (bodies ! i) err]"
    let ?uh = "case ErrorHandler b of None \<Rightarrow> u | Some h \<Rightarrow> h (bodies ! i) err u"
    have hk: "(case ErrorHandler (observe b) of None \<Rightarrow> (tr, u)
               | Some h \<Rightarrow> h (bodies ! i) err (tr, u)) = (tr @ ?hook, ?uh)"
      by (simp add: observe_callbacks split: option.splits)
    obtain r ua where nak: "msgNak (consumer b) (msgs ! i) ?uh = (r, ua)"
      by (cases "msgNak (consumer b) (msgs ! i) ?uh")
    obtain rs1 tr1 u1 where rest:
      "Process_resolve (observe b) bodies msgs (Suc i) errs
         (tr @ ?hook @ [EvNak (msgs ! i) r], ua) = (rs1, (tr1, u1))"
      by (cases "Process_resolve (observe b) bodies msgs (Suc i) errs
                   (tr @ ?hook @ [EvNak (msgs ! i) r], ua)") auto
    from Cons.prems Some nak rest hk have "rs = r # rs1" "u1 = u'"
      by (simp_all add: observeConsumer_def)
    with Cons.IH [OF rest] Some nak show ?thesis by simp
  qed
qed

lemma observe_transparent:
  assumes "Process T (observe b) ctx (tr, u) = (r, (tr', u'))"
  shows "Process T b ctx u = (r, u')"
proof -
  obtain fr u1 where f: "Fetch (consumer b) (batchSize b) (fetchOpts b) u = (fr, u1)"
    by (cases "Fetch (consumer b) (batchSize b) (fetchOpts b) u")
  let ?tr1 = "tr @ [EvFetch (batchSize b) (fetchOpts b) fr]"
  have fo: "Fetch (consumer (observe b)) (batchSize (observe b)) (fetchOpts (observe b)) (tr, u) =
      (fr, (?tr1, u1))"
    using f by (simp add: observeConsumer_def)
  show ?thesis
  proof (cases fr)
    case (Inl err)
    with assms f fo show ?thesis by (simp add: Process_def)
  next
    case (Inr mb)
    obtain dr tr2 u2 where d:
      "Process_decode T (observeConsumer (consumer b)) mb [] [] (?tr1, u1) = (dr, (tr2, u2))"
      by (cases "Process_decode T (observeConsumer (consumer b)) mb [] [] (?tr1, u1)") auto
    note d' = decode_transparent [OF d]
    show ?thesis
    proof (cases dr)
      case (Inl e)
      with assms f fo Inr d d' show ?thesis by (simp add: Process_def)
    next
      case dec: (Inr bm)
      obtain msgBodies msgs where bm: "bm = (msgBodies, msgs)" by (cases bm)
      show ?thesis
      proof (cases "msgs = []")
        case True
        with assms f fo Inr d d' dec bm show ?thesis by (simp add: Process_def)
      next
        case False
        obtain errs written u3 where p: "processor b ctx msgBodies u2 = (errs, written, u3)"
          by (cases "processor b ctx msgBodies u2") auto
        let ?left = "slice_after msgBodies written"
        let ?call = "EvProcessor msgBodies errs ?left"
        from p have po: "processor (observe b) ctx msgBodies (tr2, u2) =
            (errs, written, (tr2 @ [?call], u3))"
          by (simp add: observe_callbacks)
        show ?thesis
        proof (cases "length errs = length msgs")
          case neq: False
          with False assms f fo Inr d d' dec bm p po show ?thesis by (simp add: Process_def)
        next
          case True
          obtain rs tr4 u4 where rr:
            "Process_resolve (observe b) ?left msgs 0 errs (tr2 @ [?call], u3) =
               (rs, (tr4, u4))"
            by (cases "Process_resolve (observe b) ?left msgs 0 errs (tr2 @ [?call], u3)") auto
          note rr' = resolve_transparent [OF rr]
          from True False assms f fo Inr d d' dec bm p po rr rr' show ?thesis
            by (simp add: Process_def)
        qed
      qed
    qed
  qed
qed

lemma Process_run_result:
  "fst (Process_run T b ctx u) = fst (Process T b ctx u)"
proof -
  obtain r tr' u' where o: "Process T (observe b) ctx ([], u) = (r, (tr', u'))"
    by (cases "Process T (observe b) ctx ([], u)") auto
  from observe_transparent [OF o] o show ?thesis by (simp add: Process_run_def)
qed

subsection \<open>The runs of the small instance\<close>

lemmas fixture_defs =
  Process_run_def Process_def observe_def observeConsumer_def queueConsumer_def
  NewBatchProcessor_def toyT_def msgA_def msgBad_def msgB_def failSevens_def tooFew_def
  failSevensOverwriting_def slice_after_def blOverwriting_def
  noteHook_def errors_Join_def bpHealthy_def bpTooFew_def bpOnlyBad_def
  blStuckBad_def blStuckB_def blEmpty_def
  Process_logged_run_def Process_logged_def NewBatchProcessor_logged_def WithFetchOpts_def
  WithLogger_def Logger_log_def Let_def

lemma run_bpHealthy:
  "Process_run toyT bpHealthy () [] =
     (None,
      [EvFetch 10 [FetchMaxWait 1] (Inr [msgA, msgBad, msgB]), EvAck msgBad None,
       EvProcessor [7, 8] [Some (errorString ''failed to process message''), None] [7, 8],
       EvNak msgA None, EvAck msgB None])"
  by (simp add: fixture_defs)

lemma run_bpTooFew:
  "Process_run toyT bpTooFew () [] =
     (Some (countError 2 1),
      [EvFetch 10 [FetchMaxWait 1] (Inr [msgA, msgBad, msgB]), EvAck msgBad None,
       EvProcessor [7, 8] [None] [7, 8]])"
  by (simp add: fixture_defs)

lemma run_bpOnlyBad:
  "Process_run toyT bpOnlyBad () [] =
     (None, [EvFetch 10 [FetchMaxWait 1] (Inr [msgBad]), EvAck msgBad None])"
  by (simp add: fixture_defs)

lemma run_blStuckBad:
  "Process_logged_run toyT blStuckBad () [] [] =
     Some (Some (joinError
             [fmtError ''failed to unmarshal, skipping invalid message: ''
                (errorString ''invalid character''),
              errorString ''nats: timeout'']),
           [EvFetch 10 [FetchMaxWait 1] (Inr [msgA, msgBad, msgB]),
            EvAck msgBad (Some (errorString ''nats: timeout''))])"
  by (simp add: fixture_defs)

lemma run_blStuckB:
  "Process_logged_run toyT blStuckB () [] [] =
     Some (Some (joinError [errorString ''nats: timeout'']),
           [EvFetch 10 [FetchMaxWait 1] (Inr [msgA, msgBad, msgB]), EvAck msgBad None,
            EvProcessor [7, 8] [Some (errorString ''failed to process message''), None] [7, 8],
            EvErrorHandler 7 (errorString ''failed to process message''),
            EvNak msgA None, EvAck msgB (Some (errorString ''nats: timeout''))])"
  by (simp add: fixture_defs)

lemma run_blOverwriting:
  "Process_logged_run toyT blOverwriting () [] [] =
     Some (Some (joinError [errorString ''nats: timeout'']),
           [EvFetch 10 [FetchMaxWait 1] (Inr [msgA, msgBad, msgB]), EvAck msgBad None,
            EvProcessor [7, 8] [Some (errorString ''failed to process message''), None]
              [99, 99],
            EvErrorHandler 99 (errorString ''failed to process message''),
            EvNak msgA None, EvAck msgB (Some (errorString ''nats: timeout''))])"
  by (simp add: fixture_defs)

lemma run_blEmpty:
  "Process_logged_run toyT blEmpty () [] [] =
     Some (None, [EvFetch 10 [FetchMaxWait 1] (Inr [])])"
  by (simp add: fixture_defs)

lemma toy_decoding:
  "decodes toyT msgA" "\<not> decodes toyT msgBad" "decodes toyT msgB"
  "decoded toyT msgA = 7" "decoded toyT msgB = 8"
  by (simp_all add: decodes_def decoded_def toyT_def msgA_def msgBad_def msgB_def)

subsection \<open>Messages that do not decode\<close>

lemma either_version_hook:
  assumes "Process_run T b ctx u = (r, tr) \<or> Process_logged_run T bl ctx ul sink = Some (r, tr)"
  obtains hook where
    "(Process_run T b ctx u = (r, tr) \<and> hook = (ErrorHandler b \<noteq> None))
     \<or> (Process_logged_run T bl ctx ul sink = Some (r, tr) \<and> hook = (ErrorHandler bl \<noteq> None))"
  using assms by blast

lemma fetched_calls:
  assumes "tr = EvFetch n opts fr # tr'"
  shows "processor_calls tr = processor_calls tr'"
    and "EvProcessor bodies errs left \<in> set tr \<longleftrightarrow> EvProcessor bodies errs left \<in> set tr'"
    and "acked tr = acked tr'" and "nacked tr = nacked tr'"
  using assms by simp_all

lemma after_fetch_poison:
  assumes "after_fetch T hook mb r tr'"
  shows "(\<exists>pre m post decodeErr ackErr.
            mb = pre @ m # post
          \<and> snd (json_Unmarshal T (msgData m) (zeroT T)) = Some decodeErr
          \<and> tr' = map (\<lambda>m. EvAck m None) (undecodable T pre) @ [EvAck m (Some ackErr)]
          \<and> r = Some (joinError
                   [fmtError ''failed to unmarshal, skipping invalid message: '' decodeErr,
                    ackErr]))
       \<or> (\<exists>rest. tr' = map (\<lambda>m. EvAck m None) (undecodable T mb) @ rest
            \<and> (rest = [] \<or> (\<exists>errs left rest'.
                   rest = EvProcessor (map (decoded T) (decodable T mb)) errs left # rest')))"
  using assms unfolding after_fetch_def
proof (elim disjE exE conjE)
  fix pre m post decodeErr ackErr
  assume "mb = pre @ m # post"
    "snd (json_Unmarshal T (msgData m) (zeroT T)) = Some decodeErr"
    "tr' = map (\<lambda>m. EvAck m None) (undecodable T pre) @ [EvAck m (Some ackErr)]"
    "r = Some (joinError
               [fmtError ''failed to unmarshal, skipping invalid message: '' decodeErr,
                ackErr])"
  then show ?thesis by blast
next
  assume "tr' = map (\<lambda>m. EvAck m None) (undecodable T mb)"
  then have "tr' = map (\<lambda>m. EvAck m None) (undecodable T mb) @ []" by simp
  then show ?thesis by blast
next
  fix errs left
  assume "tr' = map (\<lambda>m. EvAck m None) (undecodable T mb)
                    @ [EvProcessor (map (decoded T) (decodable T mb)) errs left]"
  then show ?thesis by blast
next
  fix errs left rs
  assume "tr' = map (\<lambda>m. EvAck m None) (undecodable T mb)
                    @ EvProcessor (map (decoded T) (decodable T mb)) errs left
                    # resolution hook left (decodable T mb) errs rs"
  then show ?thesis by blast
qed

text \<open>
  C2. In a run of either version that fetched the batch \<open>mb\<close>: the handler, if it is
  called, is called with the decoded values of exactly those messages of \<open>mb\<close> that decode,
  in fetch order. And either the acknowledgement of a message that does not decode failed,
  and then the run ended there (the trace after the fetch is the successful \<open>Ack\<close>s of the
  undecodable messages before it and the failed \<open>Ack\<close>: no call of the handler, nothing for
  the messages after it) and returned the join of the decode error, as formatted text, and
  the \<open>Ack\<close> error; or every message that does not decode was acknowledged, with success,
  in fetch order and before anything else, and what follows, if anything, starts with the
  call of the handler.
\<close>

theorem undecodable_acked_and_excluded:
  fixes T :: "'a stdlib"
  assumes "Process_run T b ctx u = (r, tr) \<or> Process_logged_run T bl ctx ul sink = Some (r, tr)"
    and "hd tr = EvFetch n opts (Inr mb)"
  shows "(\<forall>bodies errs left. EvProcessor bodies errs left \<in> set tr \<longrightarrow>
            bodies = map (decoded T) (decodable T mb))
       \<and> ((\<exists>pre m post decodeErr ackErr.
              mb = pre @ m # post
            \<and> snd (json_Unmarshal T (msgData m) (zeroT T)) = Some decodeErr
            \<and> tl tr = map (\<lambda>m. EvAck m None) (undecodable T pre) @ [EvAck m (Some ackErr)]
            \<and> r = Some (joinError
                     [fmtError ''failed to unmarshal, skipping invalid message: '' decodeErr,
                      ackErr]))
         \<or> (\<exists>rest. tl tr = map (\<lambda>m. EvAck m None) (undecodable T mb) @ rest
              \<and> (rest = [] \<or> (\<exists>errs left rest'.
                     rest = EvProcessor (map (decoded T) (decodable T mb)) errs left # rest'))))"
proof -
  from assms(1) obtain hook where
    "(Process_run T b ctx u = (r, tr) \<and> hook = (ErrorHandler b \<noteq> None))
     \<or> (Process_logged_run T bl ctx ul sink = Some (r, tr) \<and> hook = (ErrorHandler bl \<noteq> None))"
    by (rule either_version_hook)
  from run_after_fetch [OF this assms(2)]
  have t: "tr = EvFetch n opts (Inr mb) # tl tr" and af: "after_fetch T hook mb r (tl tr)"
    by simp_all
  have "bodies = map (decoded T) (decodable T mb)"
    if "EvProcessor bodies errs left \<in> set tr" for bodies errs left
  proof -
    from that fetched_calls(2) [OF t] have "EvProcessor bodies errs left \<in> set (tl tr)" by simp
    then have "(bodies, errs, left) \<in> set (processor_calls (tl tr))" by (simp add: processor_calls_mem)
    with after_fetch_calls [OF af] show ?thesis by auto
  qed
  with after_fetch_poison [OF af] show ?thesis by blast
qed

theorem undecodable_acked_and_excluded_witness:
  "Process_run toyT bpHealthy () [] =
     (None,
      [EvFetch 10 [FetchMaxWait 1] (Inr [msgA, msgBad, msgB]), EvAck msgBad None,
       EvProcessor [7, 8] [Some (errorString ''failed to process message''), None] [7, 8],
       EvNak msgA None, EvAck msgB None])
 \<and> undecodable toyT [msgA, msgBad, msgB] = [msgBad]
 \<and> [7, 8] = map (decoded toyT) (decodable toyT [msgA, msgBad, msgB])
 \<and> Process_logged_run toyT blStuckBad () [] [] =
     Some (Some (joinError
             [fmtError ''failed to unmarshal, skipping invalid message: ''
                (errorString ''invalid character''),
              errorString ''nats: timeout'']),
           [EvFetch 10 [FetchMaxWait 1] (Inr [msgA, msgBad, msgB]),
            EvAck msgBad (Some (errorString ''nats: timeout''))])
 \<and> ((\<exists>pre m post decodeErr ackErr.
        [msgA, msgBad, msgB] = pre @ m # post
      \<and> snd (json_Unmarshal toyT (msgData m) (zeroT toyT)) = Some decodeErr
      \<and> [EvAck msgBad (Some (errorString ''nats: timeout''))] =
          map (\<lambda>m. EvAck m None) (undecodable toyT pre) @ [EvAck m (Some ackErr)]
      \<and> Some (joinError
             [fmtError ''failed to unmarshal, skipping invalid message: ''
                (errorString ''invalid character''),
              errorString ''nats: timeout'']) =
          Some (joinError
             [fmtError ''failed to unmarshal, skipping invalid message: '' decodeErr,
              ackErr]))
    \<or> (\<exists>rest. [EvAck msgBad (Some (errorString ''nats: timeout''))] =
               map (\<lambda>m. EvAck m None) (undecodable toyT [msgA, msgBad, msgB]) @ rest
         \<and> (rest = [] \<or> (\<exists>errs left rest'.
                rest = EvProcessor (map (decoded toyT) (decodable toyT [msgA, msgBad, msgB])) errs left
                         # rest'))))"
proof -
  let ?tr1 = "[EvFetch 10 [FetchMaxWait 1] (Inr [msgA, msgBad, msgB]), EvAck msgBad None,
       EvProcessor [7, 8] [Some (errorString ''failed to process message''), None] [7, 8],
       EvNak msgA None, EvAck msgB None] :: nat event list"
  let ?tr2 = "[EvFetch 10 [FetchMaxWait 1] (Inr [msgA, msgBad, msgB]),
            EvAck msgBad (Some (errorString ''nats: timeout''))] :: nat event list"
  have h1: "hd ?tr1 = EvFetch 10 [FetchMaxWait 1] (Inr [msgA, msgBad, msgB])" by simp
  have h2: "hd ?tr2 = EvFetch 10 [FetchMaxWait 1] (Inr [msgA, msgBad, msgB])" by simp
  note c1 = undecodable_acked_and_excluded [OF disjI1 [OF run_bpHealthy] h1]
  note c2 = undecodable_acked_and_excluded [OF disjI2 [OF run_blStuckBad] h2]
  from c1 have "[7, 8] = map (decoded toyT) (decodable toyT [msgA, msgBad, msgB])"
    by simp
  moreover have "undecodable toyT [msgA, msgBad, msgB] = [msgBad]"
    by (simp add: toy_decoding)
  moreover note run_bpHealthy run_blStuckBad c2 [THEN conjunct2]
  ultimately show ?thesis by simp
qed

subsection \<open>The call of the handler\<close>

lemma after_fetch_contract:
  assumes "after_fetch T hook mb r tr'"
    and "(bodies, errs, left) \<in> set (processor_calls tr')"
    and "length errs \<noteq> length bodies"
  shows "r = Some (countError (length bodies) (length errs))
       \<and> tr' = map (\<lambda>m. EvAck m None) (undecodable T mb) @ [EvProcessor bodies errs left]
       \<and> nacked tr' = [] \<and> acked tr' = undecodable T mb"
  using assms unfolding after_fetch_def
  by (elim disjE exE conjE) auto

text \<open>
  C3. In a run of either version that fetched the batch \<open>mb\<close>: the handler is called at
  most once, with the decoded values of the messages that decode, in fetch order. If it
  returns a list of outcomes of another length, the run returns the contract error made
  of the two lengths and the trace ends with the call of the handler: there is no \<open>Nak\<close> at
  all, and the only \<open>Ack\<close>s are those, made before the call, of the messages that do not
  decode, so none of the messages handed to the handler is acknowledged either way.
\<close>

theorem handler_called_once_with_decoded:
  fixes T :: "'a stdlib"
  assumes "Process_run T b ctx u = (r, tr) \<or> Process_logged_run T bl ctx ul sink = Some (r, tr)"
    and "hd tr = EvFetch n opts (Inr mb)"
  shows "length (processor_calls tr) \<le> 1
       \<and> (\<forall>bodies errs left. EvProcessor bodies errs left \<in> set tr \<longrightarrow>
            bodies = map (decoded T) (decodable T mb)
          \<and> (length errs \<noteq> length bodies \<longrightarrow>
               r = Some (countError (length bodies) (length errs))
             \<and> tl tr = map (\<lambda>m. EvAck m None) (undecodable T mb) @ [EvProcessor bodies errs left]
             \<and> nacked tr = []
             \<and> acked tr = undecodable T mb))"
proof -
  from assms(1) obtain hook where
    "(Process_run T b ctx u = (r, tr) \<and> hook = (ErrorHandler b \<noteq> None))
     \<or> (Process_logged_run T bl ctx ul sink = Some (r, tr) \<and> hook = (ErrorHandler bl \<noteq> None))"
    by (rule either_version_hook)
  from run_after_fetch [OF this assms(2)]
  have t: "tr = EvFetch n opts (Inr mb) # tl tr" and af: "after_fetch T hook mb r (tl tr)"
    by simp_all
  note fc = fetched_calls [OF t]
  have once: "length (processor_calls tr) \<le> 1"
    using after_fetch_calls [OF af] fc(1) by auto
  have "bodies = map (decoded T) (decodable T mb)
          \<and> (length errs \<noteq> length bodies \<longrightarrow>
               r = Some (countError (length bodies) (length errs))
             \<and> tl tr = map (\<lambda>m. EvAck m None) (undecodable T mb) @ [EvProcessor bodies errs left]
             \<and> nacked tr = []
             \<and> acked tr = undecodable T mb)"
    if "EvProcessor bodies errs left \<in> set tr" for bodies errs left
  proof -
    from that fc(2) have "EvProcessor bodies errs left \<in> set (tl tr)" by simp
    then have m: "(bodies, errs, left) \<in> set (processor_calls (tl tr))"
      by (simp add: processor_calls_mem)
    with after_fetch_calls [OF af] have "bodies = map (decoded T) (decodable T mb)" by auto
    moreover have "r = Some (countError (length bodies) (length errs))
             \<and> tl tr = map (\<lambda>m. EvAck m None) (undecodable T mb) @ [EvProcessor bodies errs left]
             \<and> nacked tr = []
             \<and> acked tr = undecodable T mb" if "length errs \<noteq> length bodies"
      using after_fetch_contract [OF af m that] fc(3,4) by simp
    ultimately show ?thesis by blast
  qed
  with once show ?thesis by blast
qed

theorem handler_called_once_with_decoded_witness:
  "Process_run toyT bpTooFew () [] =
     (Some (countError 2 1),
      [EvFetch 10 [FetchMaxWait 1] (Inr [msgA, msgBad, msgB]), EvAck msgBad None,
       EvProcessor [7, 8] [None] [7, 8]])
 \<and> length (processor_calls
       [EvFetch 10 [FetchMaxWait 1] (Inr [msgA, msgBad, msgB]), EvAck msgBad None,
        EvProcessor [7, 8] [None :: error option] [7, 8]]) \<le> 1
 \<and> [7, 8] = map (decoded toyT) (decodable toyT [msgA, msgBad, msgB])
 \<and> Some (countError 2 1) = Some (countError (length [7 :: nat, 8]) (length [None :: error option]))
 \<and> nacked [EvFetch 10 [FetchMaxWait 1] (Inr [msgA, msgBad, msgB]), EvAck msgBad None,
        EvProcessor [7 :: nat, 8] [None] [7, 8]] = []
 \<and> acked [EvFetch 10 [FetchMaxWait 1] (Inr [msgA, msgBad, msgB]), EvAck msgBad None,
        EvProcessor [7 :: nat, 8] [None] [7, 8]] = undecodable toyT [msgA, msgBad, msgB]"
proof -
  let ?tr = "[EvFetch 10 [FetchMaxWait 1] (Inr [msgA, msgBad, msgB]), EvAck msgBad None,
       EvProcessor [7, 8] [None] [7, 8]] :: nat event list"
  have h: "hd ?tr = EvFetch 10 [FetchMaxWait 1] (Inr [msgA, msgBad, msgB])" by simp
  note c = handler_called_once_with_decoded [OF disjI1 [OF run_bpTooFew] h]
  have m: "EvProcessor [7, 8] [None] [7, 8] \<in> set ?tr" by simp
  from c have once: "length (processor_calls ?tr) \<le> 1" by (rule conjunct1)
  note c2 = c [THEN conjunct2, rule_format, OF m]
  have neq: "length [None :: error option] \<noteq> length [7 :: nat, 8]" by simp
  note c3 = c2 [THEN conjunct2, rule_format, OF neq]
  from c2 [THEN conjunct1] c3 once run_bpTooFew show ?thesis
    by (simp add: toy_decoding)
qed

subsection \<open>Resolving the outcomes\<close>

lemma after_fetch_resolved:
  assumes "after_fetch T hook mb r tr'"
    and "(bodies, errs, left) \<in> set (processor_calls tr')"
    and "length errs = length bodies"
  shows "\<exists>rs. length rs = length errs
       \<and> bodies = map (decoded T) (decodable T mb)
       \<and> length left = length bodies
       \<and> tr' = map (\<lambda>m. EvAck m None) (undecodable T mb)
                @ EvProcessor bodies errs left # resolution hook left (decodable T mb) errs rs
       \<and> r = errors_Join rs"
  using assms unfolding after_fetch_def
  by (elim disjE exE conjE) auto

text \<open>
  C4. In a run of either version that fetched the batch \<open>mb\<close> and in which the handler
  returned one outcome for each message it was given, leaving \<open>left\<close> in the slice it was
  handed (as many elements as it was given): after the call of the handler the trace is,
  for each message in order, its \<open>Ack\<close> when its outcome is nil, and otherwise the call of
  the hook (if one is set) with the element of the slice at the message's index, as the
  handler left it, and the outcome, followed by its \<open>Nak\<close> (\<open>resolution\<close>). For a handler
  that does not write into its slice that element is the decoded value of the message. So
  the messages acknowledged are those with a nil outcome and the messages negatively
  acknowledged are the others, whatever the hook did and whatever the results \<open>rs\<close> of
  these calls were. The run returns the join of these results, which is nil if and only if
  every one of them is nil.
\<close>

theorem outcomes_resolved_one_by_one:
  fixes T :: "'a stdlib"
  assumes "(Process_run T b ctx u = (r, tr) \<and> hook = (ErrorHandler b \<noteq> None))
         \<or> (Process_logged_run T bl ctx ul sink = Some (r, tr)
             \<and> hook = (ErrorHandler bl \<noteq> None))"
    and "hd tr = EvFetch n opts (Inr mb)"
    and "EvProcessor bodies errs left \<in> set tr"
    and "length errs = length bodies"
  shows "\<exists>rs. length rs = length errs
       \<and> bodies = map (decoded T) (decodable T mb)
       \<and> length left = length bodies
       \<and> tl tr = map (\<lambda>m. EvAck m None) (undecodable T mb)
                  @ EvProcessor bodies errs left # resolution hook left (decodable T mb) errs rs
       \<and> acked (resolution hook left (decodable T mb) errs rs) =
           map (\<lambda>i. decodable T mb ! i) (filter (\<lambda>i. errs ! i = None) [0..<length errs])
       \<and> nacked (resolution hook left (decodable T mb) errs rs) =
           map (\<lambda>i. decodable T mb ! i) (filter (\<lambda>i. errs ! i \<noteq> None) [0..<length errs])
       \<and> r = errors_Join rs
       \<and> (r = None \<longleftrightarrow> (\<forall>x\<in>set rs. x = None))"
proof -
  from run_after_fetch [OF assms(1,2)]
  have t: "tr = EvFetch n opts (Inr mb) # tl tr" and af: "after_fetch T hook mb r (tl tr)"
    by simp_all
  from assms(3) fetched_calls(2) [OF t] have "EvProcessor bodies errs left \<in> set (tl tr)" by simp
  then have "(bodies, errs, left) \<in> set (processor_calls (tl tr))"
    by (simp add: processor_calls_mem)
  from after_fetch_resolved [OF af this assms(4)] obtain rs where
    rs: "length rs = length errs" "bodies = map (decoded T) (decodable T mb)"
      "length left = length bodies"
      "tl tr = map (\<lambda>m. EvAck m None) (undecodable T mb)
                @ EvProcessor bodies errs left # resolution hook left (decodable T mb) errs rs"
      "r = errors_Join rs"
    by blast
  have len: "length (decodable T mb) = length errs"
    using rs(2) assms(4) by simp
  have "acked (resolution hook left (decodable T mb) errs rs) =
           map (\<lambda>i. decodable T mb ! i) (filter (\<lambda>i. errs ! i = None) [0..<length errs])"
    "nacked (resolution hook left (decodable T mb) errs rs) =
           map (\<lambda>i. decodable T mb ! i) (filter (\<lambda>i. errs ! i \<noteq> None) [0..<length errs])"
    by (simp_all add: resolution_acked resolution_nacked len)
  moreover have "r = None \<longleftrightarrow> (\<forall>x\<in>set rs. x = None)"
    using rs(5) by (simp add: errors_Join_nil)
  ultimately show ?thesis using rs by blast
qed

theorem outcomes_resolved_one_by_one_witness:
  "Process_logged_run toyT blOverwriting () [] [] =
     Some (Some (joinError [errorString ''nats: timeout'']),
           [EvFetch 10 [FetchMaxWait 1] (Inr [msgA, msgBad, msgB]), EvAck msgBad None,
            EvProcessor [7, 8] [Some (errorString ''failed to process message''), None]
              [99, 99],
            EvErrorHandler 99 (errorString ''failed to process message''),
            EvNak msgA None, EvAck msgB (Some (errorString ''nats: timeout''))])
 \<and> ErrorHandler blOverwriting \<noteq> None
 \<and> (\<exists>rs. length rs = length [Some (errorString ''failed to process message''), None]
       \<and> [EvAck msgBad None,
           EvProcessor [7 :: nat, 8] [Some (errorString ''failed to process message''), None]
             [99, 99],
           EvErrorHandler 99 (errorString ''failed to process message''),
           EvNak msgA None, EvAck msgB (Some (errorString ''nats: timeout''))] =
          map (\<lambda>m. EvAck m None) (undecodable toyT [msgA, msgBad, msgB])
          @ EvProcessor [7, 8] [Some (errorString ''failed to process message''), None]
              [99, 99]
          # resolution True [99, 99] (decodable toyT [msgA, msgBad, msgB])
              [Some (errorString ''failed to process message''), None] rs
       \<and> Some (joinError [errorString ''nats: timeout'']) = errors_Join rs)
 \<and> resolution True [99 :: nat, 99] (decodable toyT [msgA, msgBad, msgB])
       [Some (errorString ''failed to process message''), None]
       [None, Some (errorString ''nats: timeout'')] =
     [EvErrorHandler 99 (errorString ''failed to process message''), EvNak msgA None,
      EvAck msgB (Some (errorString ''nats: timeout''))]"
proof -
  let ?errs = "[Some (errorString ''failed to process message''), None]"
  let ?tr = "[EvFetch 10 [FetchMaxWait 1] (Inr [msgA, msgBad, msgB]), EvAck msgBad None,
            EvProcessor [7, 8] ?errs [99, 99],
            EvErrorHandler 99 (errorString ''failed to process message''),
            EvNak msgA None, EvAck msgB (Some (errorString ''nats: timeout''))] :: nat event list"
  have hk: "ErrorHandler blOverwriting \<noteq> None"
    by (simp add: fixture_defs)
  then have hook: "True = (ErrorHandler blOverwriting \<noteq> None)" by simp
  have h: "hd ?tr = EvFetch 10 [FetchMaxWait 1] (Inr [msgA, msgBad, msgB])" by simp
  have m: "EvProcessor [7, 8] ?errs [99, 99] \<in> set ?tr" by simp
  have l: "length ?errs = length [7 :: nat, 8]" by simp
  from outcomes_resolved_one_by_one [OF disjI2 [OF conjI [OF run_blOverwriting hook]] h m l]
  obtain rs where "length rs = length ?errs"
    "tl ?tr = map (\<lambda>m. EvAck m None) (undecodable toyT [msgA, msgBad, msgB])
          @ EvProcessor [7, 8] ?errs [99, 99]
          # resolution True [99, 99] (decodable toyT [msgA, msgBad, msgB]) ?errs rs"
    "Some (joinError [errorString ''nats: timeout'']) = errors_Join rs"
    by blast
  then have "\<exists>rs. length rs = length ?errs
       \<and> tl ?tr = map (\<lambda>m. EvAck m None) (undecodable toyT [msgA, msgBad, msgB])
          @ EvProcessor [7, 8] ?errs [99, 99]
          # resolution True [99, 99] (decodable toyT [msgA, msgBad, msgB]) ?errs rs
       \<and> Some (joinError [errorString ''nats: timeout'']) = errors_Join rs"
    by blast
  moreover have "resolution True [99 :: nat, 99] (decodable toyT [msgA, msgBad, msgB])
       ?errs [None, Some (errorString ''nats: timeout'')] =
     [EvErrorHandler 99 (errorString ''failed to process message''), EvNak msgA None,
      EvAck msgB (Some (errorString ''nats: timeout''))]"
    by (simp add: resolution_def resolution_of_def toy_decoding upt_conv_Cons)
  ultimately show ?thesis using run_blOverwriting hk by (simp add: toy_decoding)
qed

subsection \<open>Nothing to process\<close>

lemma after_fetch_none_decodable:
  assumes "after_fetch T hook mb r tr'" and "decodable T mb = []"
  shows "processor_calls tr' = [] \<and> ((\<forall>m e. EvAck m (Some e) \<notin> set tr') \<longrightarrow> r = None)"
  using assms unfolding after_fetch_def
  by (elim disjE exE conjE) auto

lemma after_fetch_empty:
  assumes "after_fetch T hook [] r tr'"
  shows "r = None \<and> tr' = []"
  using assms unfolding after_fetch_def
  by (elim disjE exE conjE) auto

text \<open>
  C5. In a run of either version that fetched the batch \<open>mb\<close>: if no message of \<open>mb\<close>
  decodes, the handler is never called, and the run returns nil unless the acknowledgement
  of one of the undecodable messages failed (in which case the decode step did not
  complete); if the fetch delivered no message at all, the run returns nil and did nothing
  but fetch.
\<close>

theorem no_messages_no_handler:
  fixes T :: "'a stdlib"
  assumes "Process_run T b ctx u = (r, tr) \<or> Process_logged_run T bl ctx ul sink = Some (r, tr)"
    and "hd tr = EvFetch n opts (Inr mb)"
  shows "(decodable T mb = [] \<longrightarrow>
            processor_calls tr = []
          \<and> ((\<forall>m e. EvAck m (Some e) \<notin> set tr) \<longrightarrow> r = None))
       \<and> (mb = [] \<longrightarrow> r = None \<and> tr = [EvFetch n opts (Inr [])])"
proof -
  from assms(1) obtain hook where
    "(Process_run T b ctx u = (r, tr) \<and> hook = (ErrorHandler b \<noteq> None))
     \<or> (Process_logged_run T bl ctx ul sink = Some (r, tr) \<and> hook = (ErrorHandler bl \<noteq> None))"
    by (rule either_version_hook)
  from run_after_fetch [OF this assms(2)]
  have t: "tr = EvFetch n opts (Inr mb) # tl tr" and af: "after_fetch T hook mb r (tl tr)"
    by simp_all
  have 1: "processor_calls tr = [] \<and> ((\<forall>m e. EvAck m (Some e) \<notin> set tr) \<longrightarrow> r = None)"
    if "decodable T mb = []"
  proof -
    from after_fetch_none_decodable [OF af that]
    have "processor_calls (tl tr) = []"
      "(\<forall>m e. EvAck m (Some e) \<notin> set (tl tr)) \<longrightarrow> r = None"
      by simp_all
    moreover have "EvAck m (Some e) \<in> set tr \<longleftrightarrow> EvAck m (Some e) \<in> set (tl tr)" for m e
      by (subst t) simp
    ultimately show ?thesis using fetched_calls(1) [OF t] by simp
  qed
  have 2: "r = None \<and> tr = [EvFetch n opts (Inr [])]" if "mb = []"
    using after_fetch_empty [of T hook r "tl tr"] af t that by simp
  from 1 2 show ?thesis by blast
qed

theorem no_messages_no_handler_witness:
  "Process_run toyT bpOnlyBad () [] =
     (None, [EvFetch 10 [FetchMaxWait 1] (Inr [msgBad]), EvAck msgBad None])
 \<and> decodable toyT [msgBad] = []
 \<and> processor_calls [EvFetch 10 [FetchMaxWait 1] (Inr [msgBad]), EvAck msgBad None
       :: nat event] = []
 \<and> Process_logged_run toyT blEmpty () [] [] =
     Some (None, [EvFetch 10 [FetchMaxWait 1] (Inr [])])"
proof -
  let ?tr1 = "[EvFetch 10 [FetchMaxWait 1] (Inr [msgBad]), EvAck msgBad None] :: nat event list"
  let ?tr2 = "[EvFetch 10 [FetchMaxWait 1] (Inr [])] :: nat event list"
  have h1: "hd ?tr1 = EvFetch 10 [FetchMaxWait 1] (Inr [msgBad])" by simp
  have h2: "hd ?tr2 = EvFetch 10 [FetchMaxWait 1] (Inr [])" by simp
  have d: "decodable toyT [msgBad] = []" by (simp add: toy_decoding)
  from no_messages_no_handler [OF disjI1 [OF run_bpOnlyBad] h1] d
  have c1: "processor_calls ?tr1 = []" by blast
  from no_messages_no_handler [OF disjI2 [OF run_blEmpty] h2]
  have c2: "(None :: error option) = None \<and> ?tr2 = [EvFetch 10 [FetchMaxWait 1] (Inr [])]"
    by blast
  from run_bpOnlyBad d c1 run_blEmpty show ?thesis by simp
qed

subsection \<open>The two versions\<close>

lemma Process_resolve_fields:
  assumes "consumer b = consumer b'" and "ErrorHandler b = ErrorHandler b'"
  shows "Process_resolve b bodies msgs i errs u = Process_resolve b' bodies msgs i errs u"
proof (induction errs arbitrary: i u)
  case Nil
  then show ?case by simp
next
  case (Cons outcome errs)
  then show ?case using assms by (cases outcome) (simp_all split: prod.splits)
qed

lemma Process_fields:
  assumes "consumer b = consumer b'" and "batchSize b = batchSize b'"
    and "processor b = processor b'" and "fetchOpts b = fetchOpts b'"
    and "ErrorHandler b = ErrorHandler b'"
  shows "Process T b ctx u = Process T b' ctx u"
  using assms Process_resolve_fields [OF assms(1,5)]
  by (simp add: Process_def split: prod.splits sum.splits)

lemma Process_truncate:
  "Process T (BatchProcessor.truncate bl) ctx u = Process T bl ctx u"
  by (rule Process_fields) (simp_all add: BatchProcessor.truncate_def)

lemma Process_run_truncate:
  "Process_run T (BatchProcessor.truncate bl) ctx u = Process_run T bl ctx u"
proof -
  have "Process T (observe (BatchProcessor.truncate bl)) ctx ([], u) =
        Process T (observe bl) ctx ([], u)"
    by (rule Process_fields) (simp_all add: observe_def BatchProcessor.truncate_def)
  then show ?thesis by (simp add: Process_run_def)
qed

lemma NewBatchProcessor_logged_Log:
  "Log (NewBatchProcessor_logged cons n p opts) \<noteq> None"
  by (simp add: NewBatchProcessor_logged_def Let_def)

lemma NewBatchProcessor_logged_truncate:
  "BatchProcessor.truncate (NewBatchProcessor_logged cons n p [WithFetchOpts fo]) =
     NewBatchProcessor cons n p fo"
  by (simp add: NewBatchProcessor_logged_def NewBatchProcessor_def WithFetchOpts_def
      BatchProcessor.truncate_def Let_def)

text \<open>
  C10. For a processor of the version with logging whose \<open>Log\<close> is set (as it is in every
  processor its constructor returns), \<open>Process\<close> returns the same result and leaves the
  world outside in the same state as \<open>Process\<close> of batch.go on the struct with the same
  fields; it differs only in the sink of the logger. In particular both runs produce the
  same trace: the same fetch, the same \<open>Ack\<close>, \<open>Nak\<close>, handler and hook calls in the same
  order with the same results. The constructor with \<open>WithFetchOpts\<close> builds the struct that
  the constructor of batch.go builds from the same fetch options.
\<close>

theorem logging_version_equivalent:
  "(Log bl = Some lg \<longrightarrow>
      (\<exists>sink'. Process_logged T bl ctx (u, sink) =
                 Some (fst (Process T (BatchProcessor.truncate bl) ctx u),
                       snd (Process T (BatchProcessor.truncate bl) ctx u), sink'))
    \<and> Process_logged_run T bl ctx u sink =
        Some (Process_run T (BatchProcessor.truncate bl) ctx u))
 \<and> Log (NewBatchProcessor_logged cons n p opts) \<noteq> None
 \<and> BatchProcessor.truncate (NewBatchProcessor_logged cons n p [WithFetchOpts fo]) =
     NewBatchProcessor cons n p fo"
proof -
  have "(\<exists>sink'. Process_logged T bl ctx (u, sink) =
                 Some (fst (Process T (BatchProcessor.truncate bl) ctx u),
                       snd (Process T (BatchProcessor.truncate bl) ctx u), sink'))
    \<and> Process_logged_run T bl ctx u sink =
        Some (Process_run T (BatchProcessor.truncate bl) ctx u)"
    if "Log bl = Some lg"
    using Process_logged_eq [OF that, of T ctx u sink] Process_logged_run_eq [OF that, of T ctx u sink]
    by (simp add: Process_truncate Process_run_truncate)
  then show ?thesis
    using NewBatchProcessor_logged_Log [of cons n p opts]
      NewBatchProcessor_logged_truncate [of cons n p fo]
    by blast
qed

theorem logging_version_equivalent_witness:
  "Log blStuckB = Some \<lparr>toDiscard = False, AddSource = False, handlerLevel = LevelDebug\<rparr>
 \<and> Process toyT (BatchProcessor.truncate blStuckB) () [] =
     (Some (joinError [errorString ''nats: timeout'']), [2, 0])
 \<and> (\<exists>sink'. Process_logged toyT blStuckB () ([], []) =
       Some (Some (joinError [errorString ''nats: timeout'']), [2, 0], sink'))
 \<and> Process_logged_run toyT blStuckB () [] [] =
     Some (Process_run toyT (BatchProcessor.truncate blStuckB) () [])"
proof -
  let ?lg = "\<lparr>toDiscard = False, AddSource = False, handlerLevel = LevelDebug\<rparr>"
  have lg: "Log blStuckB = Some ?lg"
    by (simp add: fixture_defs)
  have p: "Process toyT (BatchProcessor.truncate blStuckB) () [] =
     (Some (joinError [errorString ''nats: timeout'']), [2, 0])"
    by (simp add: fixture_defs BatchProcessor.truncate_def)
  from logging_version_equivalent [of blStuckB ?lg toyT "()" "[]" "[]"] lg
  have "(\<exists>sink'. Process_logged toyT blStuckB () ([], []) =
                 Some (fst (Process toyT (BatchProcessor.truncate blStuckB) () []),
                       snd (Process toyT (BatchProcessor.truncate blStuckB) () []), sink'))
    \<and> Process_logged_run toyT blStuckB () [] [] =
        Some (Process_run toyT (BatchProcessor.truncate blStuckB) () [])"
    by blast
  with lg p show ?thesis by simp
qed

end
